theory Spec2Isabelle
  imports Main "HOL-Library.Char_ord" "HOL-Library.List_Lexorder" "HOL-Library.AList"
    "HOL-Library.Multiset" "HOL-Library.Code_Target_Nat"
begin

section \<open>Data model of the generator script\<close>

text \<open>
  The embedding follows \<^verbatim>\<open>scripts/hotel_oltp_data_gen_pg_meaningful_unique_v7.py\<close>.
  Python strings are \<^typ>\<open>string\<close> (byte strings; \<^verbatim>\<open>sorted\<close> on them is the
  lexicographic order of \<^theory_text>\<open>List_Lexorder\<close> over \<^theory_text>\<open>Char_ord\<close>), a \<^verbatim>\<open>dict\<close> is
  an association list read with \<^const>\<open>map_of\<close>, a \<^verbatim>\<open>set\<close> is a list without
  repetitions (every place that iterates over one sorts it first, or only tests
  membership), and an exception is a value of \<open>py_error\<close>.
\<close>

datatype py_error =
    KeyError
  | IndexError
  | UnboundLocalError
  | AttributeError
  | TypeError
  | ValueError
  | RuntimeError string

record ColumnInfo =
  table :: string
  column :: string
  data_type :: string
  udt_name :: string
  is_nullable :: bool
  char_max_len :: "nat option"
  numeric_precision :: "nat option"
  numeric_scale :: "nat option"

record ForeignKey =
  table :: string
  column :: string
  ref_table :: string
  ref_column :: string

record PrimaryKey =
  table :: string
  columns :: "string list"

type_synonym set_dict = "(string \<times> string list) list"

section \<open>Dependency ordering: \<^verbatim>\<open>topo_sort_tables\<close>\<close>

text \<open>\<^verbatim>\<open>{t: set() for t in tables}\<close>: a later duplicate key overwrites, so each key is kept once.\<close>

definition empty_sets :: "string list \<Rightarrow> set_dict" where
  "empty_sets tables = map (\<lambda>t. (t, [])) (remdups tables)"

text \<open>
  The loop \<^verbatim>\<open>for fk in fks\<close>: an edge counts when both of its tables are keys;
  \<^verbatim>\<open>deps[fk.table].add(fk.ref_table)\<close> and \<^verbatim>\<open>rdeps[fk.ref_table].add(fk.table)\<close>.
\<close>

fun add_edges :: "ForeignKey list \<Rightarrow> set_dict \<Rightarrow> set_dict \<Rightarrow> set_dict \<times> set_dict" where
  "add_edges [] deps rdeps = (deps, rdeps)"
| "add_edges (fk # fks) deps rdeps =
     (if ForeignKey.table fk \<in> fst ` set deps \<and> ref_table fk \<in> fst ` set deps
      then add_edges fks
             (AList.map_entry (ForeignKey.table fk) (List.insert (ref_table fk)) deps)
             (AList.map_entry (ref_table fk) (List.insert (ForeignKey.table fk)) rdeps)
      else add_edges fks deps rdeps)"

text \<open>
  The body of \<^verbatim>\<open>for m in sorted(rdeps[n])\<close>, over the already sorted list:
  \<^verbatim>\<open>deps[m].discard(n)\<close>, then \<^verbatim>\<open>q.append(m)\<close> when \<^verbatim>\<open>deps[m]\<close> is empty and
  \<^verbatim>\<open>m\<close> is neither in \<^verbatim>\<open>out\<close> nor in \<^verbatim>\<open>q\<close>. A missing key raises.
\<close>

fun relax :: "string \<Rightarrow> string list \<Rightarrow> string list \<Rightarrow> set_dict \<Rightarrow> string list
    \<Rightarrow> py_error + (set_dict \<times> string list)" where
  "relax n out [] deps q = Inr (deps, q)"
| "relax n out (m # ms) deps q =
     (case map_of deps m of
        None \<Rightarrow> Inl KeyError
      | Some s \<Rightarrow>
          (let s' = removeAll n s;
               deps' = AList.update m s' deps;
               q' = (if s' = [] \<and> m \<notin> set out \<and> m \<notin> set q then q @ [m] else q)
           in relax n out ms deps' q'))"

text \<open>
  The loop \<^verbatim>\<open>while q\<close>: \<^verbatim>\<open>n = q.pop(0)\<close>, \<^verbatim>\<open>out.append(n)\<close>, the inner loop,
  \<^verbatim>\<open>q.sort()\<close>. It returns \<^verbatim>\<open>out\<close> as it stands when \<^verbatim>\<open>q\<close> is empty.
\<close>

function topo_loop :: "set_dict \<Rightarrow> set_dict \<Rightarrow> string list \<Rightarrow> string list
    \<Rightarrow> py_error + string list" where
  "topo_loop deps rdeps q out =
     (case q of
        [] \<Rightarrow> Inr out
      | n # q1 \<Rightarrow>
          (case map_of rdeps n of
             None \<Rightarrow> Inl KeyError
           | Some ms \<Rightarrow>
               (case relax n (out @ [n]) (sort ms) deps q1 of
                  Inl e \<Rightarrow> Inl e
                | Inr (deps', q2) \<Rightarrow> topo_loop deps' rdeps (sort q2) (out @ [n]))))"
  by pat_completeness auto

lemma map_of_Some_key: "map_of d k = Some v \<Longrightarrow> k \<in> fst ` set d"
  by (force dest: map_of_SomeD)

lemma relax_appends:
  "relax n out ms deps q = Inr (deps', q') \<Longrightarrow>
     map fst deps' = map fst deps \<and>
     (\<exists>new. q' = q @ new \<and> distinct new \<and>
        set new \<subseteq> fst ` set deps - set out - set q)"
proof (induction ms arbitrary: deps q)
  case Nil
  then show ?case by auto
next
  case (Cons m ms)
  from Cons.prems obtain s where s: "map_of deps m = Some s"
    by (auto split: option.splits)
  define s' where "s' = removeAll n s"
  define d1 where "d1 = AList.update m s' deps"
  define q1 where "q1 = (if s' = [] \<and> m \<notin> set out \<and> m \<notin> set q then q @ [m] else q)"
  from Cons.prems s have run: "relax n out ms d1 q1 = Inr (deps', q')"
    by (simp add: s'_def d1_def q1_def Let_def)
  have mkey: "m \<in> fst ` set deps"
    using s by (rule map_of_Some_key)
  have keys: "map fst d1 = map fst deps"
    unfolding d1_def using mkey
    by (induction deps) (auto simp: AList.update_def split: if_splits)
  from Cons.IH [OF run] obtain new where
    new: "map fst deps' = map fst d1" "q' = q1 @ new" "distinct new"
      "set new \<subseteq> fst ` set d1 - set out - set q1"
    by blast
  have keyset: "fst ` set d1 = fst ` set deps"
    using keys by (metis set_map)
  show ?case
  proof (cases "s' = [] \<and> m \<notin> set out \<and> m \<notin> set q")
    case True
    then have q1: "q1 = q @ [m]" by (simp add: q1_def)
    have "q' = q @ (m # new)" using new(2) q1 by simp
    moreover have "distinct (m # new)" using new(3,4) q1 by auto
    moreover have "set (m # new) \<subseteq> fst ` set deps - set out - set q"
      using new(4) q1 keyset True mkey by auto
    ultimately show ?thesis using new(1) keys by metis
  next
    case False
    then have q1: "q1 = q" by (simp add: q1_def)
    show ?thesis using new q1 keys keyset by auto
  qed
qed

termination topo_loop
proof (relation "measures
    [\<lambda>(deps, rdeps, q, out). card ((fst ` set deps \<union> fst ` set rdeps) - set out),
     \<lambda>(deps, rdeps, q, out). card ((fst ` set deps \<union> fst ` set rdeps) - set out - set q),
     \<lambda>(deps, rdeps, q, out). length q]", goal_cases)
  case 1
  show ?case by simp
next
  case (2 deps rdeps q out n q1 ms x deps' q2)
  from 2 have run: "relax n (out @ [n]) (sort ms) deps q1 = Inr (deps', q2)" by simp
  from relax_appends [OF run] obtain new where
    keys: "map fst deps' = map fst deps" and q2: "q2 = q1 @ new" and
    new: "set new \<subseteq> fst ` set deps - set (out @ [n]) - set q1"
    by blast
  have keyset: "fst ` set deps' = fst ` set deps"
    using keys by (metis set_map)
  have nkey: "n \<in> fst ` set rdeps"
    using 2(2) by (rule map_of_Some_key)
  let ?K = "fst ` set deps \<union> fst ` set rdeps"
  have fin: "finite ?K" by simp
  show ?case
  proof (cases "n \<in> set out")
    case False
    have "?K - set (out @ [n]) \<subset> ?K - set out"
      using False nkey by auto
    then have "card (?K - set (out @ [n])) < card (?K - set out)"
      using fin by (meson finite_Diff psubset_card_mono)
    then show ?thesis using keyset by simp
  next
    case True
    then have same: "set (out @ [n]) = set out" by auto
    have drop: "?K - set out - set q = ?K - set out - set q1"
      using True 2(1) by auto
    show ?thesis
    proof (cases "new = []")
      case True
      have "length (sort q2) < length q" using True q2 2(1) by simp
      moreover have "?K - set out - set (sort q2) = ?K - set out - set q"
        using True q2 drop by simp
      ultimately show ?thesis using keyset same by simp
    next
      case False
      then obtain m where m: "m \<in> set new" by (cases new) auto
      have sub: "?K - set out - set (sort q2) \<subseteq> ?K - set out - set q"
        using q2 2(1) True by auto
      have "m \<in> ?K - set out - set q"
        using m new same 2(1) True by auto
      moreover have "m \<notin> ?K - set out - set (sort q2)"
        using m q2 by simp
      ultimately have "?K - set out - set (sort q2) \<subset> ?K - set out - set q"
        using sub by blast
      then have "card (?K - set out - set (sort q2)) < card (?K - set out - set q)"
        using fin by (meson finite_Diff psubset_card_mono)
      then show ?thesis using keyset same by simp
    qed
  qed
qed

text \<open>
  \<^verbatim>\<open>topo_sort_tables\<close>: the initial queue is the sorted list of the tables without
  dependencies, and the tables the loop did not reach are appended in sorted order.
\<close>

definition topo_sort_tables :: "string list \<Rightarrow> ForeignKey list \<Rightarrow> py_error + string list" where
  "topo_sort_tables tables fks =
     (case add_edges fks (empty_sets tables) (empty_sets tables) of
        (deps, rdeps) \<Rightarrow>
          (if \<exists>t \<in> set tables. map_of deps t = None then Inl KeyError
           else
             (case topo_loop deps rdeps (sort (filter (\<lambda>t. map_of deps t = Some []) tables)) [] of
                Inl e \<Rightarrow> Inl e
              | Inr out \<Rightarrow> Inr (out @ sort (filter (\<lambda>t. t \<notin> set out) tables)))))"


subsection \<open>What the planner guarantees\<close>

text \<open>The set a dictionary holds under a key; a missing key reads as the empty set.\<close>

definition dget :: "set_dict \<Rightarrow> string \<Rightarrow> string set" where
  "dget d k = (case map_of d k of None \<Rightarrow> {} | Some s \<Rightarrow> set s)"

text \<open>
  The foreign-key edges \<open>(child, parent)\<close> whose two tables are both in the table list, and
  the test that \<open>p\<close> comes before \<open>c\<close> in an order (first positions, as
  \<^verbatim>\<open>order.index(p) < order.index(c)\<close>).
\<close>

definition fk_edges :: "string list \<Rightarrow> ForeignKey list \<Rightarrow> (string \<times> string) set" where
  "fk_edges tables fks =
     set (map (\<lambda>fk. (ForeignKey.table fk, ref_table fk))
            (filter (\<lambda>fk. ForeignKey.table fk \<in> set tables \<and> ref_table fk \<in> set tables) fks))"

lemma map_of_None_key: "map_of d k = None \<longleftrightarrow> k \<notin> fst ` set d"
  by (simp add: map_of_eq_None_iff)

lemma dget_map_entry:
  "dget (AList.map_entry k (List.insert x) d) t =
     (if t = k \<and> k \<in> fst ` set d then insert x (dget d k) else dget d t)"
  by (auto simp: dget_def map_of_map_entry map_of_None_key split: option.splits
        dest: map_of_Some_key)

lemma dget_update: "dget (AList.update k s d) t = (if t = k then set s else dget d t)"
  by (simp add: dget_def update_conv')

lemma dget_non_key: "k \<notin> fst ` set d \<Longrightarrow> dget d k = {}"
  by (simp add: dget_def map_of_None_key [symmetric])

lemma fk_edges_Cons:
  "fk_edges tables (fk # fks) =
     (if ForeignKey.table fk \<in> set tables \<and> ref_table fk \<in> set tables
      then insert (ForeignKey.table fk, ref_table fk) (fk_edges tables fks)
      else fk_edges tables fks)"
  by (simp add: fk_edges_def)

lemma add_edges_spec:
  "add_edges fks deps rdeps = (deps', rdeps') \<Longrightarrow> fst ` set rdeps = set tables \<Longrightarrow>
   fst ` set deps = set tables \<Longrightarrow>
     fst ` set deps' = set tables \<and> fst ` set rdeps' = set tables \<and>
     (\<forall>t. dget deps' t = dget deps t \<union> {p. (t, p) \<in> fk_edges tables fks}) \<and>
     (\<forall>t. dget rdeps' t = dget rdeps t \<union> {c. (c, t) \<in> fk_edges tables fks})"
proof (induction fks arbitrary: deps rdeps)
  case Nil
  then show ?case by (simp add: fk_edges_def)
next
  case (Cons fk fks)
  show ?case
  proof (cases "ForeignKey.table fk \<in> set tables \<and> ref_table fk \<in> set tables")
    case False
    with Cons.prems have "add_edges fks deps rdeps = (deps', rdeps')" by auto
    moreover have "fk_edges tables (fk # fks) = fk_edges tables fks"
      using False by (auto simp: fk_edges_Cons)
    ultimately show ?thesis
      using Cons.IH [OF _ Cons.prems(2,3)] by simp
  next
    case True
    let ?d = "AList.map_entry (ForeignKey.table fk) (List.insert (ref_table fk)) deps"
    let ?r = "AList.map_entry (ref_table fk) (List.insert (ForeignKey.table fk)) rdeps"
    from True Cons.prems have run: "add_edges fks ?d ?r = (deps', rdeps')" by auto
    have kd: "fst ` set ?d = set tables" and kr: "fst ` set ?r = set tables"
      using Cons.prems by (simp_all add: dom_map_entry)
    from Cons.IH [OF run kr kd] have ih:
      "fst ` set deps' = set tables" "fst ` set rdeps' = set tables"
      "\<And>t. dget deps' t = dget ?d t \<union> {p. (t, p) \<in> fk_edges tables fks}"
      "\<And>t. dget rdeps' t = dget ?r t \<union> {c. (c, t) \<in> fk_edges tables fks}"
      by blast+
    show ?thesis
      using ih(1,2) True Cons.prems(2,3)
      by (auto simp: ih(3,4) dget_map_entry fk_edges_Cons)
  qed
qed


lemma relax_inv:
  assumes "set ms \<subseteq> fst ` set deps"
    and "\<forall>t. D t - set out' \<subseteq> dget deps t"
    and "\<forall>t. dget deps t \<subseteq> D t - (set out' - {n})"
    and "n \<in> set out'"
    and "\<forall>t. t \<notin> set ms \<longrightarrow> dget deps t = D t - set out'"
    and "\<forall>t \<in> fst ` set deps. t \<notin> set ms \<longrightarrow> dget deps t = {} \<longrightarrow> t \<in> set out' \<union> set q"
    and "\<forall>t \<in> set q. D t \<subseteq> set out'"
    and "set q \<subseteq> fst ` set deps"
  shows "\<exists>deps2 q2. relax n out' ms deps q = Inr (deps2, q2) \<and>
           fst ` set deps2 = fst ` set deps \<and>
           (\<forall>t. dget deps2 t = D t - set out') \<and>
           (\<forall>t \<in> fst ` set deps. dget deps2 t = {} \<longrightarrow> t \<in> set out' \<union> set q2) \<and>
           (\<forall>t \<in> set q2. D t \<subseteq> set out') \<and>
           set q2 \<subseteq> fst ` set deps"
  using assms
proof (induction ms arbitrary: deps q)
  case Nil
  then show ?case by simp
next
  case (Cons m ms)
  have mkey: "m \<in> fst ` set deps" using Cons.prems(1) by simp
  then obtain s where s: "map_of deps m = Some s"
    by (cases "map_of deps m") (auto simp: map_of_None_key)
  define s' where "s' = removeAll n s"
  define d1 where "d1 = AList.update m s' deps"
  define q1 where "q1 = (if s' = [] \<and> m \<notin> set out' \<and> m \<notin> set q then q @ [m] else q)"
  have step: "relax n out' (m # ms) deps q = relax n out' ms d1 q1"
    using s by (simp add: s'_def d1_def q1_def Let_def)
  have sm: "dget deps m = set s" using s by (simp add: dget_def)
  have s'set: "set s' = D m - set out'"
  proof -
    have "D m - set out' \<subseteq> set s" using Cons.prems(2) sm by metis
    moreover have "set s \<subseteq> D m - (set out' - {n})" using Cons.prems(3) sm by metis
    ultimately show ?thesis using Cons.prems(4) by (auto simp: s'_def)
  qed
  have d1get: "\<And>t. dget d1 t = (if t = m then D m - set out' else dget deps t)"
    by (simp add: d1_def dget_update s'set)
  have k1: "fst ` set d1 = fst ` set deps"
    using mkey by (auto simp: d1_def dom_update)
  have q1sub: "set q \<subseteq> set q1" by (auto simp: q1_def)
  have a1: "set ms \<subseteq> fst ` set d1" using Cons.prems(1) k1 by simp
  have a2: "\<forall>t. D t - set out' \<subseteq> dget d1 t"
    using Cons.prems(2) by (simp add: d1get)
  have a3: "\<forall>t. dget d1 t \<subseteq> D t - (set out' - {n})"
    using Cons.prems(3) by (auto simp: d1get)
  have a5: "\<forall>t. t \<notin> set ms \<longrightarrow> dget d1 t = D t - set out'"
    using Cons.prems(5) by (simp add: d1get)
  have a6: "\<forall>t \<in> fst ` set d1. t \<notin> set ms \<longrightarrow> dget d1 t = {} \<longrightarrow> t \<in> set out' \<union> set q1"
  proof (intro ballI impI)
    fix t assume t: "t \<in> fst ` set d1" "t \<notin> set ms" "dget d1 t = {}"
    show "t \<in> set out' \<union> set q1"
    proof (cases "t = m")
      case True
      then have "set s' = {}" using t(3) s'set by (simp add: d1get)
      then have "s' = []" by simp
      then show ?thesis using True by (auto simp: q1_def)
    next
      case False
      have "t \<in> fst ` set deps" "t \<notin> set (m # ms)" "dget deps t = {}"
        using t False k1 by (simp_all add: d1get)
      then have "t \<in> set out' \<union> set q"
        using Cons.prems(6) by blast
      then show ?thesis using q1sub by auto
    qed
  qed
  have a7: "\<forall>t \<in> set q1. D t \<subseteq> set out'"
    using Cons.prems(7) s'set by (auto simp: q1_def split: if_splits)
  have a8: "set q1 \<subseteq> fst ` set d1"
    using Cons.prems(8) mkey k1 by (auto simp: q1_def)
  note ih = Cons.IH [OF a1 a2 a3 Cons.prems(4) a5 a6 a7 a8]
  show ?case
    unfolding step using ih unfolding k1 .
qed


lemma dget_Some: "map_of d k = Some s \<Longrightarrow> dget d k = set s"
  by (simp add: dget_def)

lemma topo_loop_inv:
  assumes "fst ` set rdeps = fst ` set deps"
    and "\<forall>n m. m \<in> dget rdeps n \<longleftrightarrow> n \<in> D m"
    and "\<forall>t. D t \<noteq> {} \<longrightarrow> t \<in> fst ` set deps"
    and "\<forall>t. dget deps t = D t - set out"
    and "\<forall>t \<in> fst ` set deps. dget deps t = {} \<longrightarrow> t \<in> set out \<union> set q"
    and "\<forall>t \<in> set q. D t \<subseteq> set out"
    and "\<forall>i < length out. D (out ! i) \<subseteq> set (take i out)"
    and "set q \<subseteq> fst ` set deps"
    and "set out \<subseteq> fst ` set deps"
  shows "\<exists>res. topo_loop deps rdeps q out = Inr res \<and>
           set res \<subseteq> fst ` set deps \<and>
           (\<forall>i < length res. D (res ! i) \<subseteq> set (take i res)) \<and>
           (\<forall>t \<in> fst ` set deps. D t \<subseteq> set res \<longrightarrow> t \<in> set res) \<and>
           (distinct (out @ q) \<longrightarrow> distinct res)"
  using assms
proof (induction deps rdeps q out rule: topo_loop.induct)
  case (1 deps rdeps q out)
  show ?case
  proof (cases q)
    case Nil
    have "\<forall>t \<in> fst ` set deps. D t \<subseteq> set out \<longrightarrow> t \<in> set out"
    proof (intro ballI impI)
      fix t assume t: "t \<in> fst ` set deps" "D t \<subseteq> set out"
      then have "dget deps t = {}" using "1.prems"(4) by auto
      then show "t \<in> set out" using "1.prems"(5) t(1) Nil by auto
    qed
    then show ?thesis
      using Nil "1.prems"(7,9) by simp
  next
    case (Cons n q1)
    let ?out = "out @ [n]"
    have nq: "n \<in> set q" using Cons by simp
    then have nkey: "n \<in> fst ` set rdeps" using "1.prems"(1,8) by auto
    then obtain ms where ms: "map_of rdeps n = Some ms"
      by (cases "map_of rdeps n") (auto simp: map_of_None_key)
    have msset: "set (sort ms) = {m. n \<in> D m}"
      using "1.prems"(2) dget_Some [OF ms] by auto
    have b1: "set (sort ms) \<subseteq> fst ` set deps"
      using msset "1.prems"(3) by auto
    have b2: "\<forall>t. D t - set ?out \<subseteq> dget deps t"
      using "1.prems"(4) by auto
    have b3: "\<forall>t. dget deps t \<subseteq> D t - (set ?out - {n})"
      using "1.prems"(4) by auto
    have b4: "n \<in> set ?out" by simp
    have b5: "\<forall>t. t \<notin> set (sort ms) \<longrightarrow> dget deps t = D t - set ?out"
      using "1.prems"(4) msset by auto
    have b6: "\<forall>t \<in> fst ` set deps. t \<notin> set (sort ms) \<longrightarrow> dget deps t = {}
                \<longrightarrow> t \<in> set ?out \<union> set q1"
      using "1.prems"(5) Cons by auto
    have b7: "\<forall>t \<in> set q1. D t \<subseteq> set ?out"
      using "1.prems"(6) Cons by auto
    have b8: "set q1 \<subseteq> fst ` set deps"
      using "1.prems"(8) Cons by auto
    from relax_inv [OF b1 b2 b3 b4 b5 b6 b7 b8]
    obtain deps2 q2 where run: "relax n ?out (sort ms) deps q1 = Inr (deps2, q2)"
      and k2: "fst ` set deps2 = fst ` set deps"
      and c4: "\<forall>t. dget deps2 t = D t - set ?out"
      and c5: "\<forall>t \<in> fst ` set deps. dget deps2 t = {} \<longrightarrow> t \<in> set ?out \<union> set q2"
      and c6: "\<forall>t \<in> set q2. D t \<subseteq> set ?out"
      and c8: "set q2 \<subseteq> fst ` set deps"
      by (elim exE conjE)
    have step: "topo_loop deps rdeps q out = topo_loop deps2 rdeps (sort q2) ?out"
      using Cons ms run by (subst topo_loop.simps) simp
    have p1: "fst ` set rdeps = fst ` set deps2" using "1.prems"(1) k2 by simp
    have p3: "\<forall>t. D t \<noteq> {} \<longrightarrow> t \<in> fst ` set deps2" using "1.prems"(3) k2 by simp
    have p5: "\<forall>t \<in> fst ` set deps2. dget deps2 t = {} \<longrightarrow> t \<in> set ?out \<union> set (sort q2)"
      using c5 k2 by simp
    have p6: "\<forall>t \<in> set (sort q2). D t \<subseteq> set ?out" using c6 by simp
    have p7: "\<forall>i < length ?out. D (?out ! i) \<subseteq> set (take i ?out)"
    proof (intro allI impI)
      fix i assume i: "i < length ?out"
      show "D (?out ! i) \<subseteq> set (take i ?out)"
      proof (cases "i < length out")
        case True
        then show ?thesis using "1.prems"(7) by (simp add: nth_append)
      next
        case False
        then have "i = length out" using i by simp
        then show ?thesis using "1.prems"(6) nq by simp
      qed
    qed
    have p8: "set (sort q2) \<subseteq> fst ` set deps2" using c8 k2 by simp
    have p9: "set ?out \<subseteq> fst ` set deps2"
      using "1.prems"(8,9) nq k2 by auto
    note ih = "1.IH" [OF Cons ms run refl p1 "1.prems"(2) p3 c4 p5 p6 p7 p8 p9]
    have dist: "distinct (out @ q) \<Longrightarrow> distinct (?out @ sort q2)"
    proof -
      assume d: "distinct (out @ q)"
      from relax_appends [OF run] obtain new where
        new: "q2 = q1 @ new" "distinct new"
          "set new \<subseteq> fst ` set deps - set ?out - set q1"
        by blast
      have "distinct (?out @ q2)" using d Cons new by auto
      then show ?thesis by simp
    qed
    show ?thesis
      unfolding step using ih dist unfolding k2 by blast
  qed
qed


definition placed_before :: "string \<Rightarrow> string \<Rightarrow> string list \<Rightarrow> bool" where
  "placed_before p c order \<longleftrightarrow>
     p \<in> set order \<and> c \<in> set order \<and>
     length (takeWhile (\<lambda>x. x \<noteq> p) order) < length (takeWhile (\<lambda>x. x \<noteq> c) order)"

lemma dget_empty_sets: "dget (empty_sets tables) t = {}"
  by (auto simp: dget_def empty_sets_def map_of_eq_None_iff split: option.splits
      dest!: map_of_SomeD)

lemma keys_empty_sets: "fst ` set (empty_sets tables) = set tables"
  by (force simp: empty_sets_def)

lemma topo_sort_tables_kahn:
  "\<exists>res. topo_sort_tables tables fks = Inr (res @ sort (filter (\<lambda>t. t \<notin> set res) tables)) \<and>
     set res \<subseteq> set tables \<and>
     (\<forall>i < length res. {p. (res ! i, p) \<in> fk_edges tables fks} \<subseteq> set (take i res)) \<and>
     (\<forall>t \<in> set tables. {p. (t, p) \<in> fk_edges tables fks} \<subseteq> set res \<longrightarrow> t \<in> set res) \<and>
     (distinct tables \<longrightarrow> distinct res)"
proof -
  obtain deps rdeps where ae: "add_edges fks (empty_sets tables) (empty_sets tables) = (deps, rdeps)"
    by (cases "add_edges fks (empty_sets tables) (empty_sets tables)") auto
  define D where "D = (\<lambda>t. {p. (t, p) \<in> fk_edges tables fks})"
  define q0 where "q0 = sort (filter (\<lambda>t. map_of deps t = Some []) tables)"
  from add_edges_spec [OF ae keys_empty_sets keys_empty_sets]
  have kd: "fst ` set deps = set tables" and kr: "fst ` set rdeps = set tables"
    and dd: "\<And>t. dget deps t = D t" and rr: "\<And>t. dget rdeps t = {c. (c, t) \<in> fk_edges tables fks}"
    by (simp_all add: dget_empty_sets D_def)
  have q0set: "set q0 = {t \<in> set tables. D t = {}}"
  proof -
    have "\<And>t. t \<in> set tables \<Longrightarrow> (map_of deps t = Some []) = (D t = {})"
    proof -
      fix t assume "t \<in> set tables"
      then obtain s where s: "map_of deps t = Some s"
        using kd by (cases "map_of deps t") (auto simp: map_of_None_key)
      then have "D t = set s" using dd [of t] by (simp add: dget_def)
      then show "(map_of deps t = Some []) = (D t = {})" using s by auto
    qed
    then show ?thesis by (auto simp: q0_def)
  qed
  have Dsub: "\<And>t. D t \<noteq> {} \<Longrightarrow> t \<in> set tables"
    by (auto simp: D_def fk_edges_def)
  have a1: "fst ` set rdeps = fst ` set deps" using kd kr by simp
  have a2: "\<forall>n m. m \<in> dget rdeps n \<longleftrightarrow> n \<in> D m" by (simp add: rr D_def)
  have a3: "\<forall>t. D t \<noteq> {} \<longrightarrow> t \<in> fst ` set deps" using Dsub kd by simp
  have a4: "\<forall>t. dget deps t = D t - set []" by (simp add: dd)
  have a5: "\<forall>t \<in> fst ` set deps. dget deps t = {} \<longrightarrow> t \<in> set [] \<union> set q0"
    using q0set kd by (simp add: dd)
  have a6: "\<forall>t \<in> set q0. D t \<subseteq> set []" using q0set by simp
  have a7: "\<forall>i < length ([]::string list). D ([] ! i) \<subseteq> set (take i [])" by simp
  have a8: "set q0 \<subseteq> fst ` set deps" using q0set kd by auto
  have a9: "set ([]::string list) \<subseteq> fst ` set deps" by simp
  from topo_loop_inv [OF a1 a2 a3 a4 a5 a6 a7 a8 a9]
  obtain res where loop: "topo_loop deps rdeps q0 [] = Inr res"
    and r1: "set res \<subseteq> fst ` set deps"
    and r2: "\<forall>i < length res. D (res ! i) \<subseteq> set (take i res)"
    and r3: "\<forall>t \<in> fst ` set deps. D t \<subseteq> set res \<longrightarrow> t \<in> set res"
    and r4: "distinct ([] @ q0) \<longrightarrow> distinct res"
    by (elim exE conjE)
  have nokey: "\<not> (\<exists>t \<in> set tables. map_of deps t = None)"
    using kd by (auto simp: map_of_None_key)
  have eq: "topo_sort_tables tables fks = Inr (res @ sort (filter (\<lambda>t. t \<notin> set res) tables))"
    unfolding topo_sort_tables_def ae using nokey loop by (simp add: q0_def)
  have dq: "distinct tables \<longrightarrow> distinct res"
    using r4 by (simp add: q0_def)
  show ?thesis
    using eq r1 r2 r3 dq unfolding kd D_def by blast
qed

lemma distinct_partition_mset:
  assumes "distinct res" "set res \<subseteq> set tables" "distinct tables"
  shows "mset res + mset (filter (\<lambda>t. t \<notin> set res) tables) = mset (tables :: string list)"
proof -
  have "set (filter (\<lambda>t. t \<in> set res) tables) = set res" using assms(2) by auto
  moreover have "distinct (filter (\<lambda>t. t \<in> set res) tables)" using assms(3) by simp
  ultimately have "mset (filter (\<lambda>t. t \<in> set res) tables) = mset res"
    using assms(1) set_eq_iff_mset_eq_distinct by blast
  moreover have "mset (filter (\<lambda>t. t \<in> set res) tables)
      + mset (filter (\<lambda>t. t \<notin> set res) tables) = mset tables"
    by (induction tables) auto
  ultimately show ?thesis by simp
qed

text \<open>
  Claim C8. For a table list with distinct names and any foreign-key list, self references
  and cycles included, \<^verbatim>\<open>topo_sort_tables\<close> returns (it is a total function, and no
  dictionary lookup fails) and the list it returns is a permutation of the table list.
\<close>

theorem topo_sort_tables_permutation:
  "distinct tables \<Longrightarrow>
     \<exists>order. topo_sort_tables tables fks = Inr order \<and> mset order = mset tables"
proof -
  assume d: "distinct tables"
  from topo_sort_tables_kahn [of tables fks] obtain res where
    eq: "topo_sort_tables tables fks = Inr (res @ sort (filter (\<lambda>t. t \<notin> set res) tables))"
    and sub: "set res \<subseteq> set tables" and dr: "distinct tables \<longrightarrow> distinct res"
    by (elim exE conjE)
  have "mset (res @ sort (filter (\<lambda>t. t \<notin> set res) tables)) = mset tables"
    using distinct_partition_mset [of res tables] d dr sub by simp
  then show ?thesis using eq by blast
qed


definition mk_fk :: "string \<Rightarrow> string \<Rightarrow> string \<Rightarrow> string \<Rightarrow> ForeignKey" where
  "mk_fk t c rt rc = \<lparr>ForeignKey.table = t, column = c, ref_table = rt, ref_column = rc\<rparr>"

definition three_tables :: "string list" where
  "three_tables = [''parent'', ''child'', ''grandchild'']"

definition three_fks :: "ForeignKey list" where
  "three_fks = [mk_fk ''child'' ''parent_id'' ''parent'' ''id'',
                mk_fk ''grandchild'' ''child_id'' ''child'' ''id'']"

definition cycle_fks :: "ForeignKey list" where
  "cycle_fks = [mk_fk ''a'' ''b_id'' ''b'' ''id'', mk_fk ''b'' ''a_id'' ''a'' ''id'']"

lemma first_index_le:
  "i < length xs \<Longrightarrow> xs ! i = x \<Longrightarrow> length (takeWhile (\<lambda>y. y \<noteq> x) xs) \<le> i"
  by (induction xs arbitrary: i) (auto simp: nth_Cons split: nat.splits)

lemma first_index_hit:
  "x \<in> set xs \<Longrightarrow> length (takeWhile (\<lambda>y. y \<noteq> x) xs) < length xs \<and>
     xs ! length (takeWhile (\<lambda>y. y \<noteq> x) xs) = x"
  by (induction xs) auto

lemma kahn_complete:
  assumes ac: "acyclic (fk_edges tables fks)"
    and cl: "\<forall>t \<in> set tables. {p. (t, p) \<in> fk_edges tables fks} \<subseteq> set res \<longrightarrow> t \<in> set res"
  shows "set tables \<subseteq> set res"
proof (rule ccontr)
  assume "\<not> set tables \<subseteq> set res"
  then obtain t0 where t0: "t0 \<in> set tables - set res" by auto
  have "finite (fk_edges tables fks)" by (simp add: fk_edges_def)
  then have "wf ((fk_edges tables fks)\<inverse>)"
    using ac by (rule finite_acyclic_wf_converse)
  from wfE_min [OF this t0] obtain z where
    z: "z \<in> set tables - set res"
    and zmin: "\<And>y. (y, z) \<in> (fk_edges tables fks)\<inverse> \<Longrightarrow> y \<notin> set tables - set res"
    by blast
  have "{p. (z, p) \<in> fk_edges tables fks} \<subseteq> set res"
  proof
    fix p assume "p \<in> {p. (z, p) \<in> fk_edges tables fks}"
    then have e: "(z, p) \<in> fk_edges tables fks" by simp
    then have "p \<in> set tables" by (auto simp: fk_edges_def)
    moreover have "p \<notin> set tables - set res" using zmin e by simp
    ultimately show "p \<in> set res" by simp
  qed
  then have "z \<in> set res" using cl z by blast
  then show False using z by simp
qed

text \<open>
  Claim C5, amended. When the foreign-key edges between the listed tables are acyclic, the
  planner returns an order in which, for every such edge, the parent comes strictly before
  the child; and the schema parent, child, grandchild is planned in exactly that order.
\<close>

theorem topo_sort_tables_acyclic_order:
  "(acyclic (fk_edges tables fks) \<longrightarrow>
      (\<exists>order. topo_sort_tables tables fks = Inr order \<and>
         (\<forall>(c, p) \<in> fk_edges tables fks. placed_before p c order))) \<and>
   topo_sort_tables three_tables three_fks = Inr [''parent'', ''child'', ''grandchild'']"
proof (intro conjI impI)
  assume ac: "acyclic (fk_edges tables fks)"
  from topo_sort_tables_kahn [of tables fks] obtain res where
    eq: "topo_sort_tables tables fks = Inr (res @ sort (filter (\<lambda>t. t \<notin> set res) tables))"
    and sub: "set res \<subseteq> set tables"
    and ord: "\<forall>i < length res. {p. (res ! i, p) \<in> fk_edges tables fks} \<subseteq> set (take i res)"
    and cl: "\<forall>t \<in> set tables. {p. (t, p) \<in> fk_edges tables fks} \<subseteq> set res \<longrightarrow> t \<in> set res"
    by (elim exE conjE)
  have all: "set tables \<subseteq> set res" using kahn_complete [OF ac cl] .
  then have "filter (\<lambda>t. t \<notin> set res) tables = []" by (auto simp: filter_empty_conv)
  then have eq': "topo_sort_tables tables fks = Inr res" using eq by simp
  have "\<forall>(c, p) \<in> fk_edges tables fks. placed_before p c res"
  proof (clarify)
    fix c p assume e: "(c, p) \<in> fk_edges tables fks"
    then have "c \<in> set tables" "p \<in> set tables" by (auto simp: fk_edges_def)
    then have cin: "c \<in> set res" and pin: "p \<in> set res" using all by auto
    define j where "j = length (takeWhile (\<lambda>x. x \<noteq> c) res)"
    have j: "j < length res" "res ! j = c"
      using first_index_hit [OF cin] by (simp_all add: j_def)
    then have "p \<in> set (take j res)" using ord e by auto
    then obtain i where i: "i < j" "res ! i = p"
      using j(1) by (auto simp: in_set_conv_nth)
    then have "length (takeWhile (\<lambda>x. x \<noteq> p) res) \<le> i"
      using first_index_le [of i res p] j(1) by simp
    then show "placed_before p c res"
      using i(1) cin pin by (simp add: placed_before_def j_def)
  qed
  then show "\<exists>order. topo_sort_tables tables fks = Inr order \<and>
         (\<forall>(c, p) \<in> fk_edges tables fks. placed_before p c order)"
    using eq' by blast
next
  show "topo_sort_tables three_tables three_fks = Inr [''parent'', ''child'', ''grandchild'']"
    by code_simp
qed

theorem topo_sort_tables_acyclic_order_witness:
  "acyclic (fk_edges three_tables three_fks) \<and>
   topo_sort_tables three_tables three_fks = Inr [''parent'', ''child'', ''grandchild''] \<and>
   placed_before ''parent'' ''child'' [''parent'', ''child'', ''grandchild''] \<and>
   placed_before ''child'' ''grandchild'' [''parent'', ''child'', ''grandchild'']"
proof -
  have edges: "fk_edges three_tables three_fks =
      {(''child'', ''parent''), (''grandchild'', ''child'')}"
    by (simp add: fk_edges_def three_tables_def three_fks_def mk_fk_def)
  have ac: "acyclic (fk_edges three_tables three_fks)"
    unfolding edges
    by (rule acyclicI_order [where f = "\<lambda>s. if s = ''parent'' then (0::nat)
          else if s = ''child'' then 1 else 2"]) auto
  from topo_sort_tables_acyclic_order [of three_tables three_fks] ac
  obtain order where o: "topo_sort_tables three_tables three_fks = Inr order"
    "\<forall>(c, p) \<in> fk_edges three_tables three_fks. placed_before p c order"
    and t: "topo_sort_tables three_tables three_fks = Inr [''parent'', ''child'', ''grandchild'']"
    by blast
  from o(1) t have "order = [''parent'', ''child'', ''grandchild'']" by simp
  then show ?thesis using ac t o(2) unfolding edges by simp
qed

text \<open>
  Claim C5 as stated fails on a cycle: with \<open>a\<close> referencing \<open>b\<close> and \<open>b\<close> referencing
  \<open>a\<close> the loop never starts, both tables are appended in sorted order, and the parent
  \<open>b\<close> of the child \<open>a\<close> comes after it.
\<close>

theorem topo_sort_tables_cycle_counterexample:
  "\<not> (\<forall>tables fks order. topo_sort_tables tables fks = Inr order \<longrightarrow>
        (\<forall>(c, p) \<in> fk_edges tables fks. placed_before p c order))"
proof
  assume h: "\<forall>tables fks order. topo_sort_tables tables fks = Inr order \<longrightarrow>
        (\<forall>(c, p) \<in> fk_edges tables fks. placed_before p c order)"
  have run: "topo_sort_tables [''a'', ''b''] cycle_fks = Inr [''a'', ''b'']"
    by code_simp
  have e: "(''a'', ''b'') \<in> fk_edges [''a'', ''b''] cycle_fks"
    by (simp add: fk_edges_def cycle_fks_def mk_fk_def)
  from h run e have "placed_before ''b'' ''a'' [''a'', ''b'']" by blast
  then show False by (simp add: placed_before_def)
qed

theorem topo_sort_tables_permutation_witness:
  "distinct [''a'', ''b''] \<and>
   (\<exists>order. topo_sort_tables [''a'', ''b''] cycle_fks = Inr order \<and>
      mset order = mset [''a'', ''b''])"
  using topo_sort_tables_permutation [of "[''a'', ''b'']" cycle_fks] by simp


section \<open>Python values, strings and the random source\<close>

text \<open>
  A value a row can hold. \<open>PDate\<close> counts days and \<open>PDateTime\<close> seconds from a fixed
  origin; \<open>PNum m s\<close> is the decimal \<open>m / 10 ^ s\<close> that \<^verbatim>\<open>round(x, s)\<close> denotes.
  Two values are equal when they are the same constructor on equal arguments; Python
  also holds \<^verbatim>\<open>True == 1\<close> and \<^verbatim>\<open>False == 0\<close>, which matters for membership only in a
  set that mixes booleans and integers.
\<close>

datatype pyval = PNone | PInt int | PBool bool | PStr string | PDate int | PDateTime int | PNum int nat

text \<open>
  Every call of \<^verbatim>\<open>random\<close>, \<^verbatim>\<open>uuid\<close> or Faker consumes the next number of one
  stream; any sequence of outcomes is some stream.
\<close>

type_synonym rng = "nat \<Rightarrow> nat"

definition draw :: "rng \<Rightarrow> nat \<times> rng" where
  "draw g = (g 0, \<lambda>i. g (Suc i))"

definition rng_of :: "nat list \<Rightarrow> rng" where
  "rng_of xs = (\<lambda>i. if i < length xs then xs ! i else 0)"

text \<open>\<^verbatim>\<open>str.lower\<close> and \<^verbatim>\<open>str.upper\<close> on ASCII letters.\<close>

definition upper_letters :: string where
  "upper_letters = ''ABCDEFGHIJKLMNOPQRSTUVWXYZ''"

definition lower_letters :: string where
  "lower_letters = ''abcdefghijklmnopqrstuvwxyz''"

definition lower_char :: "char \<Rightarrow> char" where
  "lower_char c = (case map_of (zip upper_letters lower_letters) c of None \<Rightarrow> c | Some d \<Rightarrow> d)"

definition upper_char :: "char \<Rightarrow> char" where
  "upper_char c = (case map_of (zip lower_letters upper_letters) c of None \<Rightarrow> c | Some d \<Rightarrow> d)"

definition lower :: "string \<Rightarrow> string" where
  "lower s = map lower_char s"

definition upper :: "string \<Rightarrow> string" where
  "upper s = map upper_char s"

text \<open>\<^verbatim>\<open>s.startswith(p)\<close>, \<^verbatim>\<open>s.endswith(p)\<close> and \<^verbatim>\<open>sub in s\<close>.\<close>

fun startswith :: "string \<Rightarrow> string \<Rightarrow> bool" where
  "startswith s [] = True"
| "startswith [] (p # ps) = False"
| "startswith (c # s) (p # ps) = (c = p \<and> startswith s ps)"

definition endswith :: "string \<Rightarrow> string \<Rightarrow> bool" where
  "endswith s p = startswith (rev s) (rev p)"

fun str_in :: "string \<Rightarrow> string \<Rightarrow> bool" where
  "str_in sub [] = (sub = [])"
| "str_in sub (c # s) = (startswith (c # s) sub \<or> str_in sub s)"

text \<open>
  \<^verbatim>\<open>str.strip()\<close>: the ASCII characters Python counts as white space. Strings are
  lists of 8-bit characters; the white space and the letters of Unicode beyond ASCII, which
  Python's \<^verbatim>\<open>strip\<close>, \<^verbatim>\<open>lower\<close> and \<^verbatim>\<open>upper\<close> also treat, are outside the model.
\<close>

definition is_space :: "char \<Rightarrow> bool" where
  "is_space c = (c = CHR '' '' \<or> (CHR 0x09 \<le> c \<and> c \<le> CHR 0x0D) \<or> (CHR 0x1C \<le> c \<and> c \<le> CHR 0x1F))"

definition strip :: "string \<Rightarrow> string" where
  "strip s = rev (dropWhile is_space (rev (dropWhile is_space s)))"


section \<open>The key cache: \<^verbatim>\<open>cache_pk_values\<close>\<close>

text \<open>
  \<^verbatim>\<open>ref_ids\<close> maps a lowercased table name to the list of keys known for it. The
  connection is read through one query only, \<^verbatim>\<open>SELECT pk FROM table ORDER BY pk\<close> under a
  schema; \<open>select_ordered conn schema table pk\<close> is the list of first fields the cursor
  returns for it (the ordering is PostgreSQL's, requested by the query text).
\<close>

type_synonym ref_pool = "string \<rightharpoonup> pyval list"

record connection =
  select_ordered :: "string \<Rightarrow> string \<Rightarrow> string \<Rightarrow> pyval list"

definition cache_pk_values ::
    "connection \<Rightarrow> string \<Rightarrow> string \<Rightarrow> PrimaryKey option \<Rightarrow> ref_pool \<Rightarrow> ref_pool" where
  "cache_pk_values conn schema tbl pk ref_ids =
     (case pk of
        None \<Rightarrow> ref_ids
      | Some k \<Rightarrow>
          (case columns k of
             [pk_col] \<Rightarrow> ref_ids(lower tbl \<mapsto> select_ordered conn schema tbl pk_col)
           | _ \<Rightarrow> ref_ids))"

text \<open>The call in \<^verbatim>\<open>main\<close> after a table is loaded: \<^verbatim>\<open>cache_pk_values(conn, schema, t, pks.get(t), ref_ids)\<close>.\<close>

definition cache_after_load ::
    "connection \<Rightarrow> string \<Rightarrow> (string \<rightharpoonup> PrimaryKey) \<Rightarrow> string \<Rightarrow> ref_pool \<Rightarrow> ref_pool" where
  "cache_after_load conn schema pks t ref_ids = cache_pk_values conn schema t (pks t) ref_ids"

text \<open>
  Claim C7. After a table's load, with a single-column primary key the table's lowercased
  entry of the pool is exactly the key list read back from the database by the ordered
  query, whatever was tracked for it during assembly, and every other entry is unchanged;
  with a composite key or no key the pool is unchanged.
\<close>

theorem cache_pk_values_frame:
  "(pks t = Some k \<and> columns k = [pk_col] \<longrightarrow>
      cache_after_load conn schema pks t ref_ids (lower t)
        = Some (select_ordered conn schema t pk_col) \<and>
      (\<forall>u. u \<noteq> lower t \<longrightarrow> cache_after_load conn schema pks t ref_ids u = ref_ids u) \<and>
      cache_after_load conn schema pks t (ref_ids(lower t \<mapsto> tracked))
        = cache_after_load conn schema pks t ref_ids) \<and>
   (pks t = None \<or> (\<exists>k. pks t = Some k \<and> length (columns k) \<noteq> 1) \<longrightarrow>
      cache_after_load conn schema pks t ref_ids = ref_ids)"
  by (auto simp: cache_after_load_def cache_pk_values_def split: list.splits)

definition demo_conn :: connection where
  "demo_conn = \<lparr>select_ordered = (\<lambda>schema tbl c. [PInt 1, PInt 2, PInt 3])\<rparr>"

definition demo_pks :: "string \<rightharpoonup> PrimaryKey" where
  "demo_pks = [''Stay'' \<mapsto> \<lparr>PrimaryKey.table = ''Stay'', columns = [''stay_id'']\<rparr>,
               ''booking_room'' \<mapsto> \<lparr>PrimaryKey.table = ''booking_room'',
                  columns = [''booking_id'', ''room_id'']\<rparr>]"

definition demo_pool :: ref_pool where
  "demo_pool = [''stay'' \<mapsto> [PInt 7, PInt 1007], ''booking'' \<mapsto> [PInt 5]]"

theorem cache_pk_values_frame_witness:
  "cache_after_load demo_conn ''public'' demo_pks ''Stay'' demo_pool ''stay''
     = Some [PInt 1, PInt 2, PInt 3] \<and>
   cache_after_load demo_conn ''public'' demo_pks ''Stay'' demo_pool ''booking'' = Some [PInt 5] \<and>
   cache_after_load demo_conn ''public'' demo_pks ''booking_room'' demo_pool = demo_pool \<and>
   cache_after_load demo_conn ''public'' demo_pks ''room'' demo_pool = demo_pool"
proof -
  have low: "lower ''Stay'' = ''stay''" by code_simp
  define k1 where "k1 = \<lparr>PrimaryKey.table = ''Stay'', columns = [''stay_id'']\<rparr>"
  define k2 where "k2 = \<lparr>PrimaryKey.table = ''booking_room'',
                  columns = [''booking_id'', ''room_id'']\<rparr>"
  have h1: "demo_pks ''Stay'' = Some k1 \<and> columns k1 = [''stay_id'']"
    by (simp add: demo_pks_def k1_def)
  have h2: "demo_pks ''booking_room'' = None \<or>
      (\<exists>k. demo_pks ''booking_room'' = Some k \<and> length (columns k) \<noteq> 1)"
    by (simp add: demo_pks_def)
  have h3: "demo_pks ''room'' = None \<or>
      (\<exists>k. demo_pks ''room'' = Some k \<and> length (columns k) \<noteq> 1)"
    by (simp add: demo_pks_def)
  note a = cache_pk_values_frame [where pks = demo_pks and t = "''Stay''" and k = k1
      and pk_col = "''stay_id''" and conn = demo_conn and schema = "''public''"
      and ref_ids = demo_pool and tracked = "[]"]
  note b = cache_pk_values_frame [where pks = demo_pks and t = "''booking_room''" and k = k2
      and pk_col = "''booking_id''" and conn = demo_conn and schema = "''public''"
      and ref_ids = demo_pool and tracked = "[]"]
  note c = cache_pk_values_frame [where pks = demo_pks and t = "''room''" and k = k2
      and pk_col = "''id''" and conn = demo_conn and schema = "''public''"
      and ref_ids = demo_pool and tracked = "[]"]
  have "cache_after_load demo_conn ''public'' demo_pks ''Stay'' demo_pool ''stay''
     = Some [PInt 1, PInt 2, PInt 3]"
    using a h1 low by (simp add: demo_conn_def)
  moreover have "cache_after_load demo_conn ''public'' demo_pks ''Stay'' demo_pool ''booking'' = Some [PInt 5]"
    using a h1 low by (simp add: demo_pool_def)
  moreover have "cache_after_load demo_conn ''public'' demo_pks ''booking_room'' demo_pool = demo_pool"
    using b h2 by blast
  moreover have "cache_after_load demo_conn ''public'' demo_pks ''room'' demo_pool = demo_pool"
    using c h3 by blast
  ultimately show ?thesis by simp
qed


section \<open>The unique text registry: \<^verbatim>\<open>unique_text\<close>\<close>

text \<open>
  \<^verbatim>\<open>_UNIQUE_SEEN\<close> maps a (table, column) key to the set of values issued for it;
  \<^verbatim>\<open>setdefault(key, set())\<close> makes a missing key read as the empty set. \<open>make_value\<close>
  is the closure passed in: it consumes random numbers and returns a string. The loop
  \<^verbatim>\<open>for _ in range(max_tries)\<close> returns at the first candidate that is non-empty after
  \<^verbatim>\<open>strip()\<close> and not yet seen; falling off the end of the function returns
  \<^verbatim>\<open>None\<close>.
\<close>

type_synonym unique_seen = "string \<times> string \<Rightarrow> string set"

fun unique_text_loop :: "nat \<Rightarrow> (rng \<Rightarrow> string \<times> rng) \<Rightarrow> string set \<Rightarrow> rng
    \<Rightarrow> pyval \<times> string set \<times> rng" where
  "unique_text_loop 0 make_value seen g = (PNone, seen, g)"
| "unique_text_loop (Suc n) make_value seen g =
     (case make_value g of
        (raw, g') \<Rightarrow>
          (let v = strip raw in
           if v \<noteq> [] \<and> v \<notin> seen then (PStr v, insert v seen, g')
           else unique_text_loop n make_value seen g'))"

definition unique_text :: "unique_seen \<Rightarrow> string \<times> string \<Rightarrow> (rng \<Rightarrow> string \<times> rng) \<Rightarrow> nat
    \<Rightarrow> rng \<Rightarrow> pyval \<times> unique_seen \<times> rng" where
  "unique_text us key make_value max_tries g =
     (case unique_text_loop max_tries make_value (us key) g of
        (v, seen, g') \<Rightarrow> (v, us(key := seen), g'))"

text \<open>The default \<^verbatim>\<open>max_tries: int = 200000\<close>, which every call site uses.\<close>

definition max_tries_default :: nat where
  "max_tries_default = 200000"

text \<open>The first \<open>n\<close> raw candidates the closure produces from a random state.\<close>

fun make_values :: "nat \<Rightarrow> (rng \<Rightarrow> string \<times> rng) \<Rightarrow> rng \<Rightarrow> string list" where
  "make_values 0 make_value g = []"
| "make_values (Suc n) make_value g =
     (case make_value g of (raw, g') \<Rightarrow> raw # make_values n make_value g')"

lemma unique_text_loop_exhausted:
  "\<forall>raw \<in> set (make_values n make_value g). strip raw = [] \<or> strip raw \<in> seen \<Longrightarrow>
     fst (unique_text_loop n make_value seen g) = PNone \<and>
     fst (snd (unique_text_loop n make_value seen g)) = seen"
proof (induction n arbitrary: g)
  case 0
  show ?case by simp
next
  case (Suc n)
  obtain raw g' where mk: "make_value g = (raw, g')" by (cases "make_value g")
  from Suc.prems mk have hd: "strip raw = [] \<or> strip raw \<in> seen"
    and tl: "\<forall>r \<in> set (make_values n make_value g'). strip r = [] \<or> strip r \<in> seen"
    by auto
  from hd mk have "unique_text_loop (Suc n) make_value seen g = unique_text_loop n make_value seen g'"
    by auto
  then show ?case using Suc.IH [OF tl] by simp
qed

text \<open>
  Claim C10. When every candidate the generator produces within the try budget (200,000
  by default) is empty after stripping or already issued for the key, \<^verbatim>\<open>unique_text\<close>
  returns \<^verbatim>\<open>None\<close> (it raises nothing and forces no value), and the registry is left
  as it was.
\<close>

theorem unique_text_returns_None:
  "\<forall>raw \<in> set (make_values max_tries make_value g). strip raw = [] \<or> strip raw \<in> us key \<Longrightarrow>
     fst (unique_text us key make_value max_tries g) = PNone \<and>
     fst (snd (unique_text us key make_value max_tries g)) = us"
  using unique_text_loop_exhausted [of max_tries make_value g "us key"]
  by (auto simp: unique_text_def split: prod.splits)

lemma make_values_const: "set (make_values n (\<lambda>g. (s, g)) g) \<subseteq> {s}"
  by (induction n arbitrary: g) auto

theorem unique_text_returns_None_witness:
  "set (make_values max_tries_default (\<lambda>g. (''VAL_000000'', g)) (rng_of [])) \<subseteq> {''VAL_000000''} \<and>
   strip ''VAL_000000'' = ''VAL_000000'' \<and>
   fst (unique_text (\<lambda>k. {''VAL_000000''}) (''stay'', ''code'') (\<lambda>g. (''VAL_000000'', g))
          max_tries_default (rng_of [])) = PNone"
proof -
  have s: "strip ''VAL_000000'' = ''VAL_000000''" by code_simp
  have sub: "set (make_values max_tries_default (\<lambda>g. (''VAL_000000'', g)) (rng_of []))
      \<subseteq> {''VAL_000000''}"
    by (rule make_values_const)
  have "\<forall>raw \<in> set (make_values max_tries_default (\<lambda>g. (''VAL_000000'', g)) (rng_of [])).
      strip raw = [] \<or> strip raw \<in> (\<lambda>k. {''VAL_000000''}) (''stay'', ''code'')"
    using sub s by auto
  from unique_text_returns_None [OF this] sub s show ?thesis by simp
qed


section \<open>The value synthesizer: \<^verbatim>\<open>generate_value\<close>\<close>

text \<open>
  Faker is a library outside the repository: its string providers are parameters, each a
  function of the random number it consumes. \<open>today\<close> is \<^verbatim>\<open>date.today()\<close> in days,
  \<open>now\<close> the current time in seconds, \<open>py_str\<close> Python's \<^verbatim>\<open>str()\<close> on a value.
\<close>

record Faker =
  street_name :: "nat \<Rightarrow> string"
  phone_number :: "nat \<Rightarrow> string"
  email :: "nat \<Rightarrow> string"
  word :: "nat \<Rightarrow> string"
  sentence :: "nat \<Rightarrow> nat \<Rightarrow> string"

record env =
  fake :: Faker
  today :: int
  now :: int
  py_str :: "pyval \<Rightarrow> string"

record location =
  city :: string
  state :: string
  country :: string
  postal_prefix :: string
  timezone :: string
  postal_code :: string
  street1 :: string
  street2 :: "string option"

text \<open>
  The mutable state a call can touch: the random source and the three module-level
  registries \<^verbatim>\<open>_UNIQUE_SEEN\<close>, \<^verbatim>\<open>_ROW_LOCATION\<close> and \<^verbatim>\<open>_UNIQUE_POOL_STATE\<close>.
\<close>

record gstate =
  rand :: rng
  unique_seen :: unique_seen
  row_location :: "string \<times> int \<rightharpoonup> location"
  unique_pool_state :: "string \<times> string \<rightharpoonup> string list"

definition bind_err :: "py_error + 'a \<Rightarrow> ('a \<Rightarrow> py_error + 'b) \<Rightarrow> py_error + 'b" where
  "bind_err m f = (case m of Inl e \<Rightarrow> Inl e | Inr x \<Rightarrow> f x)"

definition rnd :: "gstate \<Rightarrow> nat \<times> gstate" where
  "rnd st = (case draw (rand st) of (r, g) \<Rightarrow> (r, st\<lparr>rand := g\<rparr>))"

text \<open>\<^verbatim>\<open>random.randint(a, b)\<close> with \<open>a \<le> b\<close>, and \<^verbatim>\<open>random.choice\<close>, which raises on an empty list.\<close>

definition randint :: "int \<Rightarrow> int \<Rightarrow> gstate \<Rightarrow> int \<times> gstate" where
  "randint a b st = (case rnd st of (r, st') \<Rightarrow> (a + int (r mod nat (b - a + 1)), st'))"

definition choice :: "'a list \<Rightarrow> gstate \<Rightarrow> py_error + 'a \<times> gstate" where
  "choice xs st =
     (if xs = [] then Inl IndexError
      else (case rnd st of (r, st') \<Rightarrow> Inr (xs ! (r mod length xs), st')))"

text \<open>\<^verbatim>\<open>random.random() < p\<close> for \<open>p\<close> given in percent.\<close>

definition random_below :: "nat \<Rightarrow> gstate \<Rightarrow> bool \<times> gstate" where
  "random_below percent st = (case rnd st of (r, st') \<Rightarrow> (r mod 100 < percent, st'))"

text \<open>
  \<^verbatim>\<open>random.shuffle\<close>: the permutation is built by removing the element at a drawn
  position, so every permutation is the outcome of some stream.
\<close>

fun pick_all :: "nat \<Rightarrow> 'a list \<Rightarrow> rng \<Rightarrow> 'a list \<times> rng" where
  "pick_all 0 xs g = ([], g)"
| "pick_all (Suc n) xs g =
     (if xs = [] then ([], g)
      else (case draw g of
              (r, g') \<Rightarrow>
                (let i = r mod length xs in
                 (case pick_all n (take i xs @ drop (Suc i) xs) g' of
                    (ys, g'') \<Rightarrow> (xs ! i # ys, g'')))))"

definition shuffle :: "'a list \<Rightarrow> gstate \<Rightarrow> 'a list \<times> gstate" where
  "shuffle xs st = (case pick_all (length xs) xs (rand st) of (ys, g) \<Rightarrow> (ys, st\<lparr>rand := g\<rparr>))"

text \<open>\<^verbatim>\<open>uuid.uuid4().hex[:6]\<close>: six hexadecimal digits.\<close>

definition hex_digit :: "nat \<Rightarrow> char" where
  "hex_digit n = ''0123456789abcdef'' ! (n mod 16)"

definition hex6 :: "nat \<Rightarrow> string" where
  "hex6 r = map (\<lambda>k. hex_digit (r div 16 ^ k)) [5, 4, 3, 2, 1, 0]"

definition uuid_hex6 :: "gstate \<Rightarrow> string \<times> gstate" where
  "uuid_hex6 st = (case rnd st of (r, st') \<Rightarrow> (hex6 r, st'))"

text \<open>Decimal rendering: \<^verbatim>\<open>f"{n}"\<close> and the zero-padded \<^verbatim>\<open>f"{n:03d}"\<close>.\<close>

definition dec_digit :: "nat \<Rightarrow> char" where
  "dec_digit n = ''0123456789'' ! (n mod 10)"

fun dec_str :: "nat \<Rightarrow> string" where
  "dec_str n = (if n < 10 then [dec_digit n] else dec_str (n div 10) @ [dec_digit n])"

definition dec_pad :: "nat \<Rightarrow> nat \<Rightarrow> string" where
  "dec_pad width n = replicate (width - length (dec_str n)) CHR ''0'' @ dec_str n"

text \<open>\<^verbatim>\<open>str.title()\<close> on ASCII letters.\<close>

definition is_alpha :: "char \<Rightarrow> bool" where
  "is_alpha c = (c \<in> set upper_letters \<or> c \<in> set lower_letters)"

fun title_from :: "bool \<Rightarrow> string \<Rightarrow> string" where
  "title_from prev [] = []"
| "title_from prev (c # cs) =
     (if is_alpha c then (if prev then lower_char c else upper_char c) # title_from True cs
      else c # title_from False cs)"

definition title :: "string \<Rightarrow> string" where
  "title s = title_from False s"


text \<open>The curated pools of the script.\<close>

definition mk_loc :: "string \<Rightarrow> string \<Rightarrow> string \<Rightarrow> string \<Rightarrow> string \<Rightarrow> location" where
  "mk_loc c s n p tz = \<lparr>city = c, state = s, country = n, postal_prefix = p, timezone = tz,
     postal_code = [], street1 = [], street2 = None\<rparr>"

definition LOCATION_POOL :: "location list" where
  "LOCATION_POOL =
    [mk_loc ''Boston'' ''MA'' ''US'' ''02'' ''America/New_York'',
     mk_loc ''New York'' ''NY'' ''US'' ''10'' ''America/New_York'',
     mk_loc ''Chicago'' ''IL'' ''US'' ''60'' ''America/Chicago'',
     mk_loc ''Austin'' ''TX'' ''US'' ''78'' ''America/Chicago'',
     mk_loc ''Denver'' ''CO'' ''US'' ''80'' ''America/Denver'',
     mk_loc ''Seattle'' ''WA'' ''US'' ''98'' ''America/Los_Angeles'',
     mk_loc ''San Francisco'' ''CA'' ''US'' ''94'' ''America/Los_Angeles'',
     mk_loc ''San Jose'' ''CA'' ''US'' ''95'' ''America/Los_Angeles'',
     mk_loc ''Miami'' ''FL'' ''US'' ''33'' ''America/New_York'',
     mk_loc ''Bengaluru'' ''KA'' ''IN'' ''560'' ''Asia/Kolkata'',
     mk_loc ''Hyderabad'' ''TS'' ''IN'' ''500'' ''Asia/Kolkata'',
     mk_loc ''Mumbai'' ''MH'' ''IN'' ''400'' ''Asia/Kolkata'',
     mk_loc ''Chennai'' ''TN'' ''IN'' ''600'' ''Asia/Kolkata'']"

definition HOTEL_BRANDS :: "string list" where
  "HOTEL_BRANDS = [''Marriott'', ''Hilton'', ''Hyatt'', ''Westin'', ''Sheraton'', ''Ibis'',
     ''Novotel'', ''Taj'', ''Oberoi'', ''Radisson'']"

definition ROOM_TYPE_NAMES :: "string list" where
  "ROOM_TYPE_NAMES = [''Standard King'', ''Standard Queen'', ''Deluxe King'', ''Deluxe Queen'',
     ''Studio'', ''Junior Suite'', ''Executive Suite'', ''Family Suite'']"

text \<open>
  \<^verbatim>\<open>get_row_location\<close>: the location cached for (table, row), drawn and completed on
  the first call. The list literal of the \<^verbatim>\<open>street2\<close> choice is built before the
  choice, so both of its numbers are drawn.
\<close>

definition get_row_location :: "env \<Rightarrow> string \<Rightarrow> int \<Rightarrow> gstate \<Rightarrow> py_error + location \<times> gstate" where
  "get_row_location e tbl row_idx st =
     (case row_location st (lower tbl, row_idx) of
        Some loc \<Rightarrow> Inr (loc, st)
      | None \<Rightarrow>
          bind_err (choice LOCATION_POOL st) (\<lambda>(loc0, st1).
            (let pfx = postal_prefix loc0;
                 (pc, st2) =
                   (if country loc0 = ''US'' \<or> length pfx = 3
                    then (case randint 0 999 st1 of (n, s) \<Rightarrow> (pfx @ dec_pad 3 (nat n), s))
                    else (case randint 0 9999 st1 of (n, s) \<Rightarrow> (pfx @ dec_pad 4 (nat n), s)));
                 (hn, st3) = randint 10 9999 st2;
                 (sr, st4) = rnd st3;
                 (apt, st5) = randint 1 999 st4;
                 (suite, st6) = randint 100 1999 st5
             in bind_err
                  (choice [None, Some (''Apt '' @ dec_str (nat apt)),
                           Some (''Suite '' @ dec_str (nat suite))] st6)
                  (\<lambda>(s2, st7).
                     (let loc = loc0\<lparr>postal_code := pc,
                            street1 := dec_str (nat hn) @ '' '' @ street_name (fake e) sr,
                            street2 := s2\<rparr>
                      in Inr (loc, st7\<lparr>row_location :=
                                (row_location st7)((lower tbl, row_idx) \<mapsto> loc)\<rparr>))))))"

text \<open>
  \<^verbatim>\<open>unique_choice_from_pool\<close>: the pool of a key is shuffled once and popped from the
  end; an exhausted pool falls back to a suffixed choice.
\<close>

definition unique_choice_from_pool ::
    "string \<times> string \<Rightarrow> string list \<Rightarrow> nat option \<Rightarrow> gstate \<Rightarrow> py_error + pyval \<times> gstate" where
  "unique_choice_from_pool key base_list maxlen st =
     (let (pool, st1) =
            (case unique_pool_state st key of
               Some p \<Rightarrow> (p, st)
             | None \<Rightarrow> shuffle base_list st);
          cut = (\<lambda>v. case maxlen of None \<Rightarrow> v | Some n \<Rightarrow> take n v)
      in if pool \<noteq> []
         then Inr (PStr (cut (last pool)),
                   st1\<lparr>unique_pool_state := (unique_pool_state st1)(key \<mapsto> butlast pool)\<rparr>)
         else bind_err (choice base_list
                 (st1\<lparr>unique_pool_state := (unique_pool_state st1)(key \<mapsto> pool)\<rparr>))
                (\<lambda>(b, st2). case uuid_hex6 st2 of
                    (h, st3) \<Rightarrow> Inr (PStr (cut (b @ ''_'' @ h)), st3)))"

text \<open>
  Faker's \<^verbatim>\<open>date_between\<close> and \<^verbatim>\<open>date_time_between\<close>: some point of the closed range,
  fixed by the number drawn. Offsets are in days; a year is 365 days.
\<close>

definition date_between :: "env \<Rightarrow> int \<Rightarrow> int \<Rightarrow> gstate \<Rightarrow> int \<times> gstate" where
  "date_between e lo hi st =
     (case rnd st of (r, st') \<Rightarrow> (today e + lo + int (r mod nat (hi - lo + 1)), st'))"

definition date_time_between :: "env \<Rightarrow> int \<Rightarrow> gstate \<Rightarrow> int \<times> gstate" where
  "date_time_between e lo st =
     (case rnd st of (r, st') \<Rightarrow> (now e + lo * 86400 + int (r mod nat (1 - lo * 86400)), st'))"

text \<open>\<^verbatim>\<open>round(random.uniform(a, b), scale)\<close> as a decimal with \<open>scale\<close> digits.\<close>

definition uniform_round :: "int \<Rightarrow> int \<Rightarrow> nat \<Rightarrow> gstate \<Rightarrow> pyval \<times> gstate" where
  "uniform_round a b scale st =
     (case rnd st of
        (r, st') \<Rightarrow> (PNum (a * 10 ^ scale + int (r mod nat ((b - a) * 10 ^ scale + 1))) scale, st'))"

text \<open>\<^verbatim>\<open>x[:maxlen]\<close> on the result of \<^verbatim>\<open>unique_text\<close>: slicing \<^verbatim>\<open>None\<close> raises.\<close>

definition slice_to :: "nat \<Rightarrow> pyval \<Rightarrow> py_error + pyval" where
  "slice_to n v = (case v of PStr s \<Rightarrow> Inr (PStr (take n s)) | _ \<Rightarrow> Inl TypeError)"

text \<open>
  \<^verbatim>\<open>generate_value\<close>, branch by branch in the order of the source. A UUID is a string
  fixed by the number drawn. The two later tests of \<^verbatim>\<open>"timezone" in name\<close> in the text
  branch are behind the first one, which already returns; one of them is kept.
\<close>

type_synonym enum_catalog = "string \<rightharpoonup> string list"

definition generate_value ::
    "env \<Rightarrow> ColumnInfo \<Rightarrow> int \<Rightarrow> enum_catalog \<Rightarrow> gstate \<Rightarrow> py_error + pyval \<times> gstate" where
  "generate_value e col row_idx enums st =
     (let name = lower (ColumnInfo.column col);
          dt = lower (data_type col);
          udt = lower (udt_name col)
      in
      if udt \<in> dom enums then
        (case (if is_nullable col then random_below 3 st else (False, st)) of
           (True, st1) \<Rightarrow> Inr (PNone, st1)
         | (False, st1) \<Rightarrow>
             bind_err (choice (case enums udt of None \<Rightarrow> [] | Some ls \<Rightarrow> ls) st1)
               (\<lambda>(l, st2). Inr (PStr l, st2)))
      else if name \<in> {''created_at'', ''updated_at'', ''loaded_at'', ''ingested_at''} then
        (case date_time_between e (-730) st of
           (base, st1) \<Rightarrow>
             (if name = ''updated_at''
              then (case randint 0 180 st1 of (d, st2) \<Rightarrow> Inr (PDateTime (base + d * 86400), st2))
              else Inr (PDateTime base, st1)))
      else if dt = ''date'' then
        (case date_between e (-730) 365 st of (d, st1) \<Rightarrow> Inr (PDate d, st1))
      else if dt \<in> {''timestamp without time zone'', ''timestamp with time zone''}
              \<or> udt \<in> {''timestamp'', ''timestamptz''} then
        (case date_time_between e (-730) st of (t, st1) \<Rightarrow> Inr (PDateTime t, st1))
      else if dt \<in> {''integer'', ''bigint'', ''smallint''} \<or> udt \<in> {''int2'', ''int4'', ''int8''} then
        (if endswith name ''_id'' then Inr (PInt row_idx, st)
         else if name = ''score'' then
           (case randint 1 5 st of (n, st1) \<Rightarrow> Inr (PInt n, st1))
         else if \<exists>k \<in> set [''rating'', ''stars'', ''score'']. str_in k name then
           (case randint 1 5 st of (n, st1) \<Rightarrow> Inr (PInt n, st1))
         else if \<exists>k \<in> set [''count'', ''qty'', ''quantity'', ''nights'', ''floor'', ''occupancy''].
                   str_in k name then
           (case randint 1 10 st of (n, st1) \<Rightarrow> Inr (PInt n, st1))
         else (case randint 1 100000 st of (n, st1) \<Rightarrow> Inr (PInt n, st1)))
      else if dt = ''uuid'' \<or> udt = ''uuid'' then
        (case rnd st of (r, st1) \<Rightarrow> Inr (PStr (''uuid-'' @ dec_str r), st1))
      else if dt = ''boolean'' then
        (if str_in ''is_'' name \<or> endswith name ''_flag''
         then (case random_below 85 st of (b, st1) \<Rightarrow> Inr (PBool b, st1))
         else (case random_below 50 st of (b, st1) \<Rightarrow> Inr (PBool b, st1)))
      else if dt \<in> {''numeric'', ''decimal''} \<or> udt = ''numeric'' then
        (let scale = (case numeric_scale col of None \<Rightarrow> 2 | Some n \<Rightarrow> if n = 0 then 2 else n)
         in
         if str_in ''percent'' name \<or> endswith name ''_pct'' \<or> endswith name ''pct''
           then Inr (uniform_round 0 100 scale st)
         else if str_in ''ratio'' name \<or> str_in ''fraction'' name
           then Inr (uniform_round 0 1 scale st)
         else if lower (ColumnInfo.table col) = ''promotion''
                 \<and> name \<in> {''value'', ''discount_value'', ''discount_amount'', ''discount''}
           then Inr (uniform_round 5 50 scale st)
         else if \<exists>k \<in> set [''amount'', ''price'', ''rate'', ''cost'', ''fee'', ''total'', ''tax''].
                   str_in k name
           then Inr (uniform_round 20 2000 scale st)
         else Inr (uniform_round 0 1000 scale st))
      else if dt \<in> {''character varying'', ''character'', ''text''} then
        (let maxlen = (case char_max_len col of None \<Rightarrow> 255 | Some n \<Rightarrow> if n = 0 then 255 else n);
             key = (ColumnInfo.table col, ColumnInfo.column col)
         in
         if name \<in> {''city'', ''state'', ''country'', ''postal_code'', ''zipcode'', ''zip''}
            \<or> str_in ''timezone'' name
            \<or> name \<in> {''address_line1'', ''address_line2'', ''street'', ''street1'', ''street2''}
         then
           bind_err (get_row_location e (ColumnInfo.table col) row_idx st) (\<lambda>(loc, st1).
             Inr (PStr (take maxlen
               (if str_in ''timezone'' name then timezone loc
                else if name = ''city'' then city loc
                else if name = ''state'' then state loc
                else if name = ''country'' then country loc
                else if name \<in> {''postal_code'', ''zipcode'', ''zip''} then postal_code loc
                else if name \<in> {''address_line1'', ''street'', ''street1''} then street1 loc
                else (case street2 loc of None \<Rightarrow> [] | Some v \<Rightarrow> v))), st1))
         else if lower (ColumnInfo.table col) = ''hotel'' \<and> name \<in> {''name'', ''hotel_name''} then
           bind_err (choice HOTEL_BRANDS st) (\<lambda>(brand, st1).
             bind_err (get_row_location e (ColumnInfo.table col) row_idx st1) (\<lambda>(loc, st2).
               bind_err (choice [''Hotel'', ''Resort'', ''Suites'', ''Inn''] st2) (\<lambda>(suffix, st3).
                 Inr (PStr (take maxlen (brand @ '' '' @ city loc @ '' '' @ suffix)), st3))))
         else if lower (ColumnInfo.table col) = ''room_type'' \<and> name \<in> {''name'', ''room_type_name''} then
           unique_choice_from_pool key ROOM_TYPE_NAMES (Some maxlen) st
         else if name \<in> {''phone'', ''phone_number''} then
           (case rnd st of (r, st1) \<Rightarrow> Inr (PStr (take maxlen (phone_number (fake e) r)), st1))
         else if name \<in> {''currency'', ''currency_code''} then
           bind_err (choice [''USD'', ''INR''] st) (\<lambda>(c, st1). Inr (PStr (take maxlen c), st1))
         else if name \<in> {''state_code'', ''state_abbr''} then
           bind_err (get_row_location e (ColumnInfo.table col) row_idx st) (\<lambda>(loc, st1).
             Inr (PStr (take maxlen (state loc)), st1))
         else if str_in ''timezone'' name then
           Inr (PStr (take maxlen ''America/New_York''), st)
         else if name = ''email'' then
           (case unique_text (unique_seen st) key
                   (\<lambda>g. case draw g of (r, g') \<Rightarrow> (email (fake e) r, g'))
                   max_tries_default (rand st) of
              (v, us, g) \<Rightarrow>
                bind_err (slice_to maxlen v)
                  (\<lambda>w. Inr (w, st\<lparr>rand := g, unique_seen := us\<rparr>)))
         else if endswith name ''_name'' \<or> name \<in> {''name'', ''code''} then
           (case unique_text (unique_seen st) key
                   (\<lambda>g. case draw g of
                           (r, g') \<Rightarrow>
                             (case draw g' of
                                (u, g'') \<Rightarrow> (title (word (fake e) r) @ ''_'' @ hex6 u, g'')))
                   max_tries_default (rand st) of
              (v, us, g) \<Rightarrow>
                bind_err (slice_to maxlen v)
                  (\<lambda>w. Inr (w, st\<lparr>rand := g, unique_seen := us\<rparr>)))
         else if maxlen \<le> 20 then
           (case rnd st of (r, st1) \<Rightarrow> Inr (PStr (take maxlen (word (fake e) r)), st1))
         else if maxlen \<le> 80 then
           (case rnd st of (r, st1) \<Rightarrow> Inr (PStr (take maxlen (sentence (fake e) 6 r)), st1))
         else
           (case rnd st of (r, st1) \<Rightarrow> Inr (PStr (take maxlen (sentence (fake e) 10 r)), st1)))
      else Inr (PNone, st))"

definition demo_faker :: Faker where
  "demo_faker = \<lparr>street_name = (\<lambda>r. ''Main Street''), phone_number = (\<lambda>r. ''555-'' @ dec_pad 4 r),
     email = (\<lambda>r. ''user'' @ dec_str r @ ''@example.org''), word = (\<lambda>r. ''word'' @ dec_str r),
     sentence = (\<lambda>n r. ''Sentence '' @ dec_str r @ ''.'')\<rparr>"

definition demo_env :: env where
  "demo_env = \<lparr>fake = demo_faker, today = 20000, now = 1728000000,
     py_str = (\<lambda>v. ''value'')\<rparr>"

definition init_state :: "rng \<Rightarrow> gstate" where
  "init_state g = \<lparr>rand = g, unique_seen = (\<lambda>k. {}), row_location = Map.empty,
     unique_pool_state = Map.empty\<rparr>"

definition mk_col :: "string \<Rightarrow> string \<Rightarrow> string \<Rightarrow> string \<Rightarrow> bool \<Rightarrow> ColumnInfo" where
  "mk_col t c dt udt nullable = \<lparr>ColumnInfo.table = t, column = c, data_type = dt, udt_name = udt,
     is_nullable = nullable, char_max_len = None, numeric_precision = None, numeric_scale = None\<rparr>"


section \<open>Row assembly: shared pieces\<close>

text \<open>
  A row under construction is a dictionary from column names to values; the line written
  to the CSV file is \<^verbatim>\<open>[row.get(cn) for cn in colnames]\<close>. Values are compared with HOL
  equality, which is Python's \<^verbatim>\<open>==\<close> on values of one kind (the numeric identifications
  across kinds, such as \<^verbatim>\<open>True == 1\<close>, are not modelled). The requested row count is a
  natural number: \<^verbatim>\<open>main\<close> skips a table whose count is not positive.
\<close>

type_synonym row = "string \<rightharpoonup> pyval"

type_synonym fk_map = "string \<times> string \<rightharpoonup> string \<times> string"

definition row_get :: "row \<Rightarrow> string \<Rightarrow> pyval" where
  "row_get r cn = (case r cn of None \<Rightarrow> PNone | Some v \<Rightarrow> v)"

definition csv_line :: "ColumnInfo list \<Rightarrow> row \<Rightarrow> pyval list" where
  "csv_line cols r = map (\<lambda>c. row_get r (ColumnInfo.column c)) cols"

text \<open>\<^verbatim>\<open>build_fk_map\<close>: a dictionary comprehension, so a later foreign key overwrites.\<close>

definition build_fk_map :: "ForeignKey list \<Rightarrow> fk_map" where
  "build_fk_map fks =
     foldl (\<lambda>m fk. m((lower (ForeignKey.table fk), ForeignKey.column fk)
                        \<mapsto> (lower (ref_table fk), ref_column fk)))
       Map.empty fks"

text \<open>
  \<^verbatim>\<open>col_lc = {c.column.lower(): c.column for c in cols}\<close> read with \<^verbatim>\<open>col_lc.get(k)\<close>:
  the last column whose lowercased name is \<open>k\<close>. \<open>named\<close> is the truth value Python gives
  the result (\<^verbatim>\<open>None\<close> and the empty string are false).
\<close>

definition col_lc_get :: "ColumnInfo list \<Rightarrow> string \<Rightarrow> string option" where
  "col_lc_get cols k =
     (case filter (\<lambda>c. lower (ColumnInfo.column c) = k) cols of
        [] \<Rightarrow> None
      | c # cs \<Rightarrow> Some (ColumnInfo.column (last (c # cs))))"

definition named :: "string option \<Rightarrow> bool" where
  "named x = (case x of None \<Rightarrow> False | Some s \<Rightarrow> s \<noteq> [])"

text \<open>\<^verbatim>\<open>ref_ids.get(parent_table, [])\<close>.\<close>

definition pool_get :: "ref_pool \<Rightarrow> string \<Rightarrow> pyval list" where
  "pool_get ref_ids t = (case ref_ids t of None \<Rightarrow> [] | Some xs \<Rightarrow> xs)"

text \<open>
  The column loop of the junction and date-range assemblers (the same text in
  \<^verbatim>\<open>generate_booking_room_csv\<close>, \<^verbatim>\<open>generate_room_night_csv\<close>,
  \<^verbatim>\<open>generate_booking_discount_csv\<close> and \<^verbatim>\<open>generate_review_score_csv\<close>): a column
  already in the row is skipped, a foreign key is chosen from the parent's pool (or is
  \<^verbatim>\<open>None\<close> or 1 when the pool is empty), any other column is synthesized and a null
  for a non-nullable column replaced.
\<close>

definition fill_column :: "env \<Rightarrow> string \<Rightarrow> fk_map \<Rightarrow> ref_pool \<Rightarrow> enum_catalog \<Rightarrow> int
    \<Rightarrow> ColumnInfo \<Rightarrow> row \<Rightarrow> gstate \<Rightarrow> py_error + row \<times> gstate" where
  "fill_column e table_lc fkm ref_ids enums idx c r st =
     (let cn = ColumnInfo.column c in
      if cn \<in> dom r then Inr (r, st)
      else
        (case fkm (table_lc, cn) of
           Some (parent_table, rc) \<Rightarrow>
             (let candidates = pool_get ref_ids parent_table in
              if candidates \<noteq> []
              then bind_err (choice candidates st) (\<lambda>(x, st1). Inr (r(cn \<mapsto> x), st1))
              else Inr (r(cn \<mapsto> (if is_nullable c then PNone else PInt 1)), st))
         | None \<Rightarrow>
             bind_err (generate_value e c idx enums st) (\<lambda>(v, st1).
               if v = PNone \<and> \<not> is_nullable c
               then (if lower (data_type c) \<in> {''integer'', ''bigint'', ''smallint''}
                     then Inr (r(cn \<mapsto> PInt 1), st1)
                     else (case uuid_hex6 st1 of
                             (h, st2) \<Rightarrow> Inr (r(cn \<mapsto> PStr (''VAL_'' @ h)), st2)))
               else Inr (r(cn \<mapsto> v), st1))))"

fun fill_columns :: "env \<Rightarrow> string \<Rightarrow> fk_map \<Rightarrow> ref_pool \<Rightarrow> enum_catalog \<Rightarrow> int
    \<Rightarrow> ColumnInfo list \<Rightarrow> row \<Rightarrow> gstate \<Rightarrow> py_error + row \<times> gstate" where
  "fill_columns e table_lc fkm ref_ids enums idx [] r st = Inr (r, st)"
| "fill_columns e table_lc fkm ref_ids enums idx (c # cs) r st =
     (case fill_column e table_lc fkm ref_ids enums idx c r st of
        Inl err \<Rightarrow> Inl err
      | Inr (r1, st1) \<Rightarrow> fill_columns e table_lc fkm ref_ids enums idx cs r1 st1)"

section \<open>The date-range assembler: \<^verbatim>\<open>generate_room_night_csv\<close>\<close>

text \<open>\<^verbatim>\<open>random.sample(range(n), k)\<close> for \<open>k \<le> n\<close>: \<open>k\<close> positions drawn without replacement.\<close>

definition sample_range :: "nat \<Rightarrow> nat \<Rightarrow> gstate \<Rightarrow> nat list \<times> gstate" where
  "sample_range n k st = (case pick_all k [0..<n] (rand st) of (ys, g) \<Rightarrow> (ys, st\<lparr>rand := g\<rparr>))"

text \<open>\<^verbatim>\<open>total_days = (end - start).days\<close> with \<open>start = today - 730\<close> and \<open>end = today + 365\<close>.\<close>

definition total_days :: nat where
  "total_days = 1095"

text \<open>
  The loop \<^verbatim>\<open>for off in offsets\<close> for one room: a pair already seen is skipped;
  otherwise the row is completed and appended, and the loop breaks once \<open>n_rows\<close> rows
  exist.
\<close>

fun room_night_offsets :: "env \<Rightarrow> string \<Rightarrow> ColumnInfo list \<Rightarrow> fk_map \<Rightarrow> ref_pool \<Rightarrow> nat
    \<Rightarrow> enum_catalog \<Rightarrow> string \<Rightarrow> string \<Rightarrow> pyval \<Rightarrow> nat list
    \<Rightarrow> row list \<Rightarrow> (pyval \<times> int) set \<Rightarrow> gstate
    \<Rightarrow> py_error + row list \<times> (pyval \<times> int) set \<times> gstate" where
  "room_night_offsets e table_lc cols fkm ref_ids n_rows enums room_id_col night_date_col rid []
      rows seen st = Inr (rows, seen, st)"
| "room_night_offsets e table_lc cols fkm ref_ids n_rows enums room_id_col night_date_col rid
      (off # offs) rows seen st =
     (let nd = today e - 730 + int off in
      if (rid, nd) \<in> seen
      then room_night_offsets e table_lc cols fkm ref_ids n_rows enums room_id_col night_date_col
             rid offs rows seen st
      else
        (case fill_columns e table_lc fkm ref_ids enums (int (length rows) + 1) cols
                [room_id_col \<mapsto> rid, night_date_col \<mapsto> PDate nd] st of
           Inl err \<Rightarrow> Inl err
         | Inr (r, st1) \<Rightarrow>
             (if n_rows \<le> length (rows @ [r])
              then Inr (rows @ [r], insert (rid, nd) seen, st1)
              else room_night_offsets e table_lc cols fkm ref_ids n_rows enums room_id_col
                     night_date_col rid offs (rows @ [r]) (insert (rid, nd) seen) st1)))"

text \<open>The loop \<^verbatim>\<open>for rid in room_ids\<close>, with \<open>k = min(per_room, total_days)\<close> offsets per room.\<close>

fun room_night_rooms :: "env \<Rightarrow> string \<Rightarrow> ColumnInfo list \<Rightarrow> fk_map \<Rightarrow> ref_pool \<Rightarrow> nat
    \<Rightarrow> enum_catalog \<Rightarrow> string \<Rightarrow> string \<Rightarrow> nat \<Rightarrow> pyval list
    \<Rightarrow> row list \<Rightarrow> (pyval \<times> int) set \<Rightarrow> gstate
    \<Rightarrow> py_error + row list \<times> gstate" where
  "room_night_rooms e table_lc cols fkm ref_ids n_rows enums room_id_col night_date_col per_room []
      rows seen st = Inr (rows, st)"
| "room_night_rooms e table_lc cols fkm ref_ids n_rows enums room_id_col night_date_col per_room
      (rid # rids) rows seen st =
     (if n_rows \<le> length rows then Inr (rows, st)
      else
        (case sample_range total_days (min per_room total_days) st of
           (offsets, st1) \<Rightarrow>
             (case room_night_offsets e table_lc cols fkm ref_ids n_rows enums room_id_col
                     night_date_col rid offsets rows seen st1 of
                Inl err \<Rightarrow> Inl err
              | Inr (rows1, seen1, st2) \<Rightarrow>
                  room_night_rooms e table_lc cols fkm ref_ids n_rows enums room_id_col
                    night_date_col per_room rids rows1 seen1 st2)))"

text \<open>
  \<^verbatim>\<open>generate_room_night_csv\<close>: the two checks that raise, then the loops; the result is
  the list of lines written, \<^verbatim>\<open>rows[:n_rows]\<close>.
\<close>

definition generate_room_night_csv :: "env \<Rightarrow> string \<Rightarrow> ColumnInfo list \<Rightarrow> fk_map \<Rightarrow> ref_pool
    \<Rightarrow> nat \<Rightarrow> enum_catalog \<Rightarrow> gstate \<Rightarrow> py_error + pyval list list \<times> gstate" where
  "generate_room_night_csv e tbl cols fkm ref_ids n_rows enums st =
     (let room_ids = pool_get ref_ids ''room'' in
      if room_ids = []
      then Inl (RuntimeError ''room_night needs room ids available before generation.'')
      else
        (case (col_lc_get cols ''room_id'', col_lc_get cols ''night_date'') of
           (Some room_id_col, Some night_date_col) \<Rightarrow>
             (if room_id_col = [] \<or> night_date_col = []
              then Inl (RuntimeError ''room_night expected columns room_id and night_date.'')
              else
                (let per_room = max 1 (n_rows div length room_ids) in
                 (case shuffle room_ids st of
                    (shuffled, st1) \<Rightarrow>
                      (case room_night_rooms e (lower tbl) cols fkm ref_ids n_rows enums
                              room_id_col night_date_col per_room shuffled [] {} st1 of
                         Inl err \<Rightarrow> Inl err
                       | Inr (rows, st2) \<Rightarrow> Inr (map (csv_line cols) (take n_rows rows), st2)))))
         | _ \<Rightarrow> Inl (RuntimeError ''room_night expected columns room_id and night_date.'')))"

definition room_night_cols :: "ColumnInfo list" where
  "room_night_cols = [mk_col ''room_night'' ''room_id'' ''integer'' ''int4'' False,
                      mk_col ''room_night'' ''night_date'' ''date'' ''date'' False]"

definition two_rooms :: ref_pool where
  "two_rooms = [''room'' \<mapsto> [PInt 1, PInt 2]]"


lemma length_pick_all: "length (fst (pick_all n xs g)) = min n (length xs)"
proof (induction n arbitrary: xs g)
  case 0
  show ?case by simp
next
  case (Suc n)
  show ?case
  proof (cases "xs = []")
    case True
    then show ?thesis by simp
  next
    case False
    obtain r g' where d: "draw g = (r, g')" by (cases "draw g")
    define i where "i = r mod length xs"
    have i: "i < length xs" using False by (simp add: i_def)
    obtain ys g'' where p: "pick_all n (take i xs @ drop (Suc i) xs) g' = (ys, g'')"
      by (cases "pick_all n (take i xs @ drop (Suc i) xs) g'")
    have "length ys = min n (length (take i xs @ drop (Suc i) xs))"
      using Suc.IH [of "take i xs @ drop (Suc i) xs" g'] p by simp
    moreover have "length (take i xs @ drop (Suc i) xs) = length xs - 1"
      using i by simp
    moreover have "pick_all (Suc n) xs g = (xs ! i # ys, g'')"
      using False d p by (simp add: i_def Let_def)
    ultimately show ?thesis using i by simp
  qed
qed

lemma pick_all_zero: "pick_all k xs (\<lambda>i. 0) = (take k xs, \<lambda>i. 0)"
proof (induction k arbitrary: xs)
  case 0
  show ?case by simp
next
  case (Suc k)
  show ?case
  proof (cases xs)
    case Nil
    then show ?thesis by simp
  next
    case (Cons x xs')
    then show ?thesis using Suc.IH [of xs'] by (simp add: draw_def)
  qed
qed

lemma length_sample_range: "length (fst (sample_range n k st)) \<le> k"
  using length_pick_all [of k "[0..<n]" "rand st"]
  by (cases "pick_all k [0..<n] (rand st)") (simp add: sample_range_def)

lemma length_shuffle: "length (fst (shuffle xs st)) = length xs"
  using length_pick_all [of "length xs" xs "rand st"]
  by (cases "pick_all (length xs) xs (rand st)") (simp add: shuffle_def)

lemma room_night_offsets_length:
  "room_night_offsets e tlc cols fkm ref_ids n_rows enums rc nc rid offs rows seen st
     = Inr (rows', seen', st') \<Longrightarrow> length rows' \<le> length rows + length offs"
proof (induction offs arbitrary: rows seen st)
  case Nil
  then show ?case by simp
next
  case (Cons off offs)
  define nd where "nd = today e - 730 + int off"
  show ?case
  proof (cases "(rid, nd) \<in> seen")
    case True
    with Cons.prems have "room_night_offsets e tlc cols fkm ref_ids n_rows enums rc nc rid offs
        rows seen st = Inr (rows', seen', st')"
      by (simp add: nd_def)
    from Cons.IH [OF this] show ?thesis by simp
  next
    case False
    with Cons.prems obtain r st1 where
      f: "fill_columns e tlc fkm ref_ids enums (int (length rows) + 1) cols
            [rc \<mapsto> rid, nc \<mapsto> PDate nd] st = Inr (r, st1)"
      by (auto simp: nd_def Let_def split: sum.splits)
    show ?thesis
    proof (cases "n_rows \<le> length (rows @ [r])")
      case True
      with Cons.prems False f have "rows' = rows @ [r]"
        by (simp add: nd_def Let_def)
      then show ?thesis by simp
    next
      case nb: False
      with Cons.prems False f have "room_night_offsets e tlc cols fkm ref_ids n_rows enums rc nc
          rid offs (rows @ [r]) (insert (rid, nd) seen) st1 = Inr (rows', seen', st')"
        by (simp add: nd_def Let_def)
      from Cons.IH [OF this] show ?thesis by simp
    qed
  qed
qed

lemma room_night_rooms_length:
  "room_night_rooms e tlc cols fkm ref_ids n_rows enums rc nc per_room rids rows seen st
     = Inr (rows', st') \<Longrightarrow>
   length rows' \<le> length rows + length rids * min per_room total_days"
proof (induction rids arbitrary: rows seen st)
  case Nil
  then show ?case by simp
next
  case (Cons rid rids)
  show ?case
  proof (cases "n_rows \<le> length rows")
    case True
    with Cons.prems show ?thesis by simp
  next
    case False
    obtain offsets st1 where sm: "sample_range total_days (min per_room total_days) st = (offsets, st1)"
      by (cases "sample_range total_days (min per_room total_days) st")
    have lo: "length offsets \<le> min per_room total_days"
      using length_sample_range [of total_days "min per_room total_days" st] sm by simp
    from Cons.prems False sm obtain rows1 seen1 st2 where
      o: "room_night_offsets e tlc cols fkm ref_ids n_rows enums rc nc rid offsets rows seen st1
            = Inr (rows1, seen1, st2)"
      and r: "room_night_rooms e tlc cols fkm ref_ids n_rows enums rc nc per_room rids rows1 seen1 st2
            = Inr (rows', st')"
      by (auto split: sum.splits)
    have "length rows1 \<le> length rows + length offsets"
      using room_night_offsets_length [OF o] .
    moreover have "length rows' \<le> length rows1 + length rids * min per_room total_days"
      using Cons.IH [OF r] .
    ultimately show ?thesis using lo by (simp add: min_def split: if_splits)
  qed
qed

lemma generate_room_night_csv_bound:
  assumes "generate_room_night_csv e tbl cols fkm ref_ids n_rows enums st = Inr (lines, st')"
  shows "length lines \<le> length (pool_get ref_ids ''room'')
           * min (max 1 (n_rows div length (pool_get ref_ids ''room''))) total_days"
proof -
  let ?ids = "pool_get ref_ids ''room''"
  let ?per = "max 1 (n_rows div length ?ids)"
  obtain shuffled st1 where sh: "shuffle ?ids st = (shuffled, st1)"
    by (cases "shuffle ?ids st")
  have ls: "length shuffled = length ?ids"
    using length_shuffle [of ?ids st] sh by simp
  from assms sh obtain rc nc rows where
    run: "room_night_rooms e (lower tbl) cols fkm ref_ids n_rows enums rc nc ?per shuffled [] {} st1
            = Inr (rows, st')"
    and lines: "lines = map (csv_line cols) (take n_rows rows)"
    by (auto simp: generate_room_night_csv_def Let_def
        split: if_splits option.splits sum.splits prod.splits)
  have "length rows \<le> length shuffled * min ?per total_days"
    using room_night_rooms_length [OF run] by simp
  then show ?thesis using lines ls by simp
qed


lemma rng_of_Nil: "rng_of [] = (\<lambda>i. 0)"
  by (simp add: rng_of_def)

lemma room_night_short_run:
  "generate_room_night_csv demo_env ''room_night'' room_night_cols Map.empty two_rooms 5 Map.empty
     (init_state (rng_of []))
   = Inr ([[PInt 1, PDate 19270], [PInt 1, PDate 19271], [PInt 2, PDate 19270], [PInt 2, PDate 19271]],
          init_state (rng_of []))"
proof -
  let ?s = "init_state (\<lambda>i. 0)"
  have c1: "col_lc_get room_night_cols ''room_id'' = Some ''room_id''" by code_simp
  have c2: "col_lc_get room_night_cols ''night_date'' = Some ''night_date''" by code_simp
  have lt: "lower ''room_night'' = ''room_night''" by code_simp
  have pg: "pool_get two_rooms ''room'' = [PInt 1, PInt 2]"
    by (simp add: pool_get_def two_rooms_def)
  have sh: "shuffle [PInt 1, PInt 2] ?s = ([PInt 1, PInt 2], ?s)"
    by (simp add: shuffle_def pick_all_zero init_state_def)
  have sm: "sample_range total_days (min 2 total_days) ?s = ([0, 1], ?s)"
    by (simp add: sample_range_def pick_all_zero init_state_def total_days_def)
  have fill: "\<And>idx rid nd. fill_columns demo_env ''room_night'' Map.empty two_rooms Map.empty idx
      room_night_cols [''room_id'' \<mapsto> rid, ''night_date'' \<mapsto> nd] ?s
      = Inr ([''room_id'' \<mapsto> rid, ''night_date'' \<mapsto> nd], ?s)"
    by (simp add: room_night_cols_def mk_col_def fill_column_def)
  have td: "today demo_env = 20000" by (simp add: demo_env_def)
  have lines: "\<And>rid nd. csv_line room_night_cols [''room_id'' \<mapsto> rid, ''night_date'' \<mapsto> nd]
      = [rid, nd]"
    by (simp add: csv_line_def room_night_cols_def mk_col_def row_get_def)
  have per: "max (Suc 0) (5 div Suc (Suc 0)) = 2" by code_simp
  show ?thesis
    unfolding rng_of_Nil generate_room_night_csv_def
    by (simp add: Let_def c1 c2 lt pg sh per sm fill td lines)
qed


text \<open>
  Claim C9. Whenever \<^verbatim>\<open>generate_room_night_csv\<close> returns, it has written at most
  \<open>max(1, n_rows // rooms)\<close> rows per room, capped at the 1095-day window; so when the
  room count does not divide \<open>n_rows\<close> (and is not larger) it returns normally with
  strictly fewer than \<open>n_rows\<close> rows. With two rooms and five requested rows it returns
  four rows and raises nothing.
\<close>

theorem room_night_silent_shortfall:
  "(generate_room_night_csv e tbl cols fkm ref_ids n_rows enums st = Inr (lines, st') \<longrightarrow>
      length lines \<le> length (pool_get ref_ids ''room'')
        * min (max 1 (n_rows div length (pool_get ref_ids ''room''))) total_days) \<and>
   (generate_room_night_csv e tbl cols fkm ref_ids n_rows enums st = Inr (lines, st') \<and>
      length (pool_get ref_ids ''room'') \<le> n_rows \<and>
      n_rows mod length (pool_get ref_ids ''room'') \<noteq> 0 \<longrightarrow>
      length lines < n_rows) \<and>
   (\<exists>written final.
      generate_room_night_csv demo_env ''room_night'' room_night_cols Map.empty two_rooms 5
        Map.empty (init_state (rng_of [])) = Inr (written, final) \<and> length written = 4)"
proof (intro conjI impI)
  assume "generate_room_night_csv e tbl cols fkm ref_ids n_rows enums st = Inr (lines, st')"
  then show "length lines \<le> length (pool_get ref_ids ''room'')
        * min (max 1 (n_rows div length (pool_get ref_ids ''room''))) total_days"
    by (rule generate_room_night_csv_bound)
next
  let ?k = "length (pool_get ref_ids ''room'')"
  assume a: "generate_room_night_csv e tbl cols fkm ref_ids n_rows enums st = Inr (lines, st') \<and>
      ?k \<le> n_rows \<and> n_rows mod ?k \<noteq> 0"
  then have b: "length lines \<le> ?k * min (max 1 (n_rows div ?k)) total_days"
    using generate_room_night_csv_bound by blast
  have "pool_get ref_ids ''room'' \<noteq> []"
    using a by (auto simp: generate_room_night_csv_def Let_def)
  then have pos: "0 < ?k" by simp
  then have "1 \<le> n_rows div ?k" using a by (simp add: Suc_le_eq div_greater_zero_iff)
  then have "min (max 1 (n_rows div ?k)) total_days \<le> n_rows div ?k" by simp
  then have "?k * min (max 1 (n_rows div ?k)) total_days \<le> ?k * (n_rows div ?k)"
    by (rule mult_le_mono2)
  moreover have "?k * (n_rows div ?k) < n_rows"
  proof -
    have "n_rows = ?k * (n_rows div ?k) + n_rows mod ?k" by simp
    moreover have "0 < n_rows mod ?k" using a by simp
    ultimately show ?thesis by linarith
  qed
  ultimately show "length lines < n_rows" using b by linarith
next
  show "\<exists>written final.
      generate_room_night_csv demo_env ''room_night'' room_night_cols Map.empty two_rooms 5
        Map.empty (init_state (rng_of [])) = Inr (written, final) \<and> length written = 4"
    using room_night_short_run by simp
qed

theorem room_night_silent_shortfall_witness:
  "generate_room_night_csv demo_env ''room_night'' room_night_cols Map.empty two_rooms 5
        Map.empty (init_state (rng_of []))
     = Inr ([[PInt 1, PDate 19270], [PInt 1, PDate 19271], [PInt 2, PDate 19270],
             [PInt 2, PDate 19271]], init_state (rng_of [])) \<and>
   length (pool_get two_rooms ''room'') \<le> 5 \<and>
   5 mod length (pool_get two_rooms ''room'') \<noteq> 0 \<and>
   length [[PInt 1, PDate 19270], [PInt 1, PDate 19271], [PInt 2, PDate 19270],
           [PInt 2, PDate 19271]] < (5::nat)"
proof -
  let ?L = "[[PInt 1, PDate 19270], [PInt 1, PDate 19271], [PInt 2, PDate 19270],
             [PInt 2, PDate 19271]]"
  have pg: "pool_get two_rooms ''room'' = [PInt 1, PInt 2]"
    by (simp add: pool_get_def two_rooms_def)
  have h: "generate_room_night_csv demo_env ''room_night'' room_night_cols Map.empty two_rooms 5
        Map.empty (init_state (rng_of [])) = Inr (?L, init_state (rng_of [])) \<and>
      length (pool_get two_rooms ''room'') \<le> 5 \<and>
      5 mod length (pool_get two_rooms ''room'') \<noteq> 0"
  proof -
    have "(5::nat) mod length [PInt 1, PInt 2] \<noteq> 0" by code_simp
    then show ?thesis using room_night_short_run pg by simp
  qed
  note t = room_night_silent_shortfall [where e = demo_env and tbl = "''room_night''"
      and cols = room_night_cols and fkm = Map.empty and ref_ids = two_rooms and n_rows = 5
      and enums = Map.empty and st = "init_state (rng_of [])" and lines = ?L
      and st' = "init_state (rng_of [])"]
  from t h have "length ?L < (5::nat)" by blast
  with h show ?thesis by blast
qed


section \<open>The junction assembler: \<^verbatim>\<open>generate_booking_room_csv\<close>\<close>

text \<open>
  The loop \<^verbatim>\<open>for _ in range(rooms_for_booking)\<close>: a room is chosen at random; a pair
  already seen is skipped; otherwise the row is completed and appended, and the loop breaks
  once \<open>n_rows\<close> rows exist.
\<close>

fun booking_room_inner :: "env \<Rightarrow> string \<Rightarrow> ColumnInfo list \<Rightarrow> fk_map \<Rightarrow> ref_pool \<Rightarrow> nat
    \<Rightarrow> enum_catalog \<Rightarrow> string \<Rightarrow> string \<Rightarrow> pyval list \<Rightarrow> pyval \<Rightarrow> nat
    \<Rightarrow> row list \<Rightarrow> (pyval \<times> pyval) set \<Rightarrow> gstate
    \<Rightarrow> py_error + row list \<times> (pyval \<times> pyval) set \<times> gstate" where
  "booking_room_inner e table_lc cols fkm ref_ids n_rows enums booking_id_col room_id_col room_ids
      b 0 rows seen st = Inr (rows, seen, st)"
| "booking_room_inner e table_lc cols fkm ref_ids n_rows enums booking_id_col room_id_col room_ids
      b (Suc k) rows seen st =
     (case choice room_ids st of
        Inl err \<Rightarrow> Inl err
      | Inr (r, st1) \<Rightarrow>
          (if (b, r) \<in> seen
           then booking_room_inner e table_lc cols fkm ref_ids n_rows enums booking_id_col
                  room_id_col room_ids b k rows seen st1
           else
             (case fill_columns e table_lc fkm ref_ids enums (int (length rows) + 1) cols
                     [booking_id_col \<mapsto> b, room_id_col \<mapsto> r] st1 of
                Inl err \<Rightarrow> Inl err
              | Inr (rw, st2) \<Rightarrow>
                  (if n_rows \<le> length (rows @ [rw])
                   then Inr (rows @ [rw], insert (b, r) seen, st2)
                   else booking_room_inner e table_lc cols fkm ref_ids n_rows enums
                          booking_id_col room_id_col room_ids b k (rows @ [rw])
                          (insert (b, r) seen) st2))))"

text \<open>
  The loop \<^verbatim>\<open>while len(rows) < n_rows\<close>. Nothing bounds the number of its iterations,
  so the model is a partial function: \<open>None\<close> stands for a run that never leaves the loop.
\<close>

partial_function (option) booking_room_loop :: "env \<Rightarrow> string \<Rightarrow> ColumnInfo list \<Rightarrow> fk_map
    \<Rightarrow> ref_pool \<Rightarrow> nat \<Rightarrow> enum_catalog \<Rightarrow> string \<Rightarrow> string \<Rightarrow> pyval list \<Rightarrow> pyval list
    \<Rightarrow> nat \<Rightarrow> row list \<Rightarrow> (pyval \<times> pyval) set \<Rightarrow> gstate
    \<Rightarrow> (py_error + row list \<times> gstate) option" where
  "booking_room_loop e table_lc cols fkm ref_ids n_rows enums booking_id_col room_id_col
      booking_ids room_ids i rows seen st =
     (if n_rows \<le> length rows then Some (Inr (rows, st))
      else
        (case randint 1 3 st of
           (k, st1) \<Rightarrow>
             (case booking_room_inner e table_lc cols fkm ref_ids n_rows enums booking_id_col
                     room_id_col room_ids (booking_ids ! (i mod length booking_ids)) (nat k)
                     rows seen st1 of
                Inl err \<Rightarrow> Some (Inl err)
              | Inr (rows1, seen1, st2) \<Rightarrow>
                  booking_room_loop e table_lc cols fkm ref_ids n_rows enums booking_id_col
                    room_id_col booking_ids room_ids (i + 1) rows1 seen1 st2)))"


text \<open>
  \<^verbatim>\<open>generate_booking_room_csv\<close>: the two checks that raise, the shuffle, the loop, and
  the lines written, \<^verbatim>\<open>rows[:n_rows]\<close>. There is no check of \<open>n_rows\<close> against the
  number of pairs.
\<close>

definition generate_booking_room_csv :: "env \<Rightarrow> string \<Rightarrow> ColumnInfo list \<Rightarrow> fk_map \<Rightarrow> ref_pool
    \<Rightarrow> nat \<Rightarrow> enum_catalog \<Rightarrow> gstate \<Rightarrow> (py_error + pyval list list \<times> gstate) option" where
  "generate_booking_room_csv e tbl cols fkm ref_ids n_rows enums st =
     (let booking_ids = pool_get ref_ids ''booking'';
          room_ids = pool_get ref_ids ''room''
      in
      if booking_ids = [] \<or> room_ids = []
      then Some (Inl (RuntimeError
             ''booking_room needs booking and room ids available before generation.''))
      else
        (case (col_lc_get cols ''booking_id'', col_lc_get cols ''room_id'') of
           (Some booking_id_col, Some room_id_col) \<Rightarrow>
             (if booking_id_col = [] \<or> room_id_col = []
              then Some (Inl (RuntimeError ''booking_room expected columns booking_id and room_id.''))
              else
                (case shuffle booking_ids st of
                   (shuffled, st1) \<Rightarrow>
                     map_option
                       (\<lambda>res. case res of
                                 Inl err \<Rightarrow> Inl err
                               | Inr (rows, st2) \<Rightarrow>
                                   Inr (map (csv_line cols) (take n_rows rows), st2))
                       (booking_room_loop e (lower tbl) cols fkm ref_ids n_rows enums
                          booking_id_col room_id_col shuffled room_ids 0 [] {} st1)))
         | _ \<Rightarrow> Some (Inl (RuntimeError ''booking_room expected columns booking_id and room_id.''))))"

section \<open>The junction assembler: \<^verbatim>\<open>generate_booking_discount_csv\<close>\<close>

fun booking_discount_inner :: "env \<Rightarrow> string \<Rightarrow> ColumnInfo list \<Rightarrow> fk_map \<Rightarrow> ref_pool \<Rightarrow> nat
    \<Rightarrow> enum_catalog \<Rightarrow> string \<Rightarrow> string \<Rightarrow> pyval list \<Rightarrow> pyval \<Rightarrow> nat
    \<Rightarrow> row list \<Rightarrow> (pyval \<times> pyval) set \<Rightarrow> gstate
    \<Rightarrow> py_error + row list \<times> (pyval \<times> pyval) set \<times> gstate" where
  "booking_discount_inner e table_lc cols fkm ref_ids n_rows enums booking_id_col promo_id_col
      promo_ids b 0 rows seen st = Inr (rows, seen, st)"
| "booking_discount_inner e table_lc cols fkm ref_ids n_rows enums booking_id_col promo_id_col
      promo_ids b (Suc k) rows seen st =
     (case choice promo_ids st of
        Inl err \<Rightarrow> Inl err
      | Inr (p, st1) \<Rightarrow>
          (if (b, p) \<in> seen
           then booking_discount_inner e table_lc cols fkm ref_ids n_rows enums booking_id_col
                  promo_id_col promo_ids b k rows seen st1
           else
             (case fill_columns e table_lc fkm ref_ids enums (int (length rows) + 1) cols
                     [booking_id_col \<mapsto> b, promo_id_col \<mapsto> p] st1 of
                Inl err \<Rightarrow> Inl err
              | Inr (rw, st2) \<Rightarrow>
                  (if n_rows \<le> length (rows @ [rw])
                   then Inr (rows @ [rw], insert (b, p) seen, st2)
                   else booking_discount_inner e table_lc cols fkm ref_ids n_rows enums
                          booking_id_col promo_id_col promo_ids b k (rows @ [rw])
                          (insert (b, p) seen) st2))))"

text \<open>
  The deterministic fill over the cartesian product, entered once \<open>i > n_rows * 20\<close>:
  \<^verbatim>\<open>for p2 in promo_ids\<close> inside \<^verbatim>\<open>for b2 in booking_ids\<close>, each breaking when
  \<open>n_rows\<close> rows exist.
\<close>

fun discount_fill_promos :: "env \<Rightarrow> string \<Rightarrow> ColumnInfo list \<Rightarrow> fk_map \<Rightarrow> ref_pool \<Rightarrow> nat
    \<Rightarrow> enum_catalog \<Rightarrow> string \<Rightarrow> string \<Rightarrow> pyval \<Rightarrow> pyval list
    \<Rightarrow> row list \<Rightarrow> (pyval \<times> pyval) set \<Rightarrow> gstate
    \<Rightarrow> py_error + row list \<times> (pyval \<times> pyval) set \<times> gstate" where
  "discount_fill_promos e table_lc cols fkm ref_ids n_rows enums booking_id_col promo_id_col b2 []
      rows seen st = Inr (rows, seen, st)"
| "discount_fill_promos e table_lc cols fkm ref_ids n_rows enums booking_id_col promo_id_col b2
      (p2 # ps) rows seen st =
     (if n_rows \<le> length rows then Inr (rows, seen, st)
      else if (b2, p2) \<in> seen
      then discount_fill_promos e table_lc cols fkm ref_ids n_rows enums booking_id_col
             promo_id_col b2 ps rows seen st
      else
        (case fill_columns e table_lc fkm ref_ids enums (int (length rows) + 1) cols
                [booking_id_col \<mapsto> b2, promo_id_col \<mapsto> p2] st of
           Inl err \<Rightarrow> Inl err
         | Inr (rw, st1) \<Rightarrow>
             discount_fill_promos e table_lc cols fkm ref_ids n_rows enums booking_id_col
               promo_id_col b2 ps (rows @ [rw]) (insert (b2, p2) seen) st1))"

fun discount_fill_bookings :: "env \<Rightarrow> string \<Rightarrow> ColumnInfo list \<Rightarrow> fk_map \<Rightarrow> ref_pool \<Rightarrow> nat
    \<Rightarrow> enum_catalog \<Rightarrow> string \<Rightarrow> string \<Rightarrow> pyval list \<Rightarrow> pyval list
    \<Rightarrow> row list \<Rightarrow> (pyval \<times> pyval) set \<Rightarrow> gstate
    \<Rightarrow> py_error + row list \<times> (pyval \<times> pyval) set \<times> gstate" where
  "discount_fill_bookings e table_lc cols fkm ref_ids n_rows enums booking_id_col promo_id_col
      promo_ids [] rows seen st = Inr (rows, seen, st)"
| "discount_fill_bookings e table_lc cols fkm ref_ids n_rows enums booking_id_col promo_id_col
      promo_ids (b2 # bs) rows seen st =
     (case discount_fill_promos e table_lc cols fkm ref_ids n_rows enums booking_id_col
             promo_id_col b2 promo_ids rows seen st of
        Inl err \<Rightarrow> Inl err
      | Inr (rows1, seen1, st1) \<Rightarrow>
          (if n_rows \<le> length rows1 then Inr (rows1, seen1, st1)
           else discount_fill_bookings e table_lc cols fkm ref_ids n_rows enums booking_id_col
                  promo_id_col promo_ids bs rows1 seen1 st1))"

text \<open>
  One pass through the body of \<^verbatim>\<open>while len(rows) < n_rows\<close> at counter \<open>i\<close> (every
  path through the body advances \<open>i\<close> by one): a booking given zero promotions changes
  nothing; otherwise the inner loop runs, and the deterministic fill follows when
  \<open>i + 1 > n_rows * 20\<close> and rows are still missing.
\<close>

definition booking_discount_body :: "env \<Rightarrow> string \<Rightarrow> ColumnInfo list \<Rightarrow> fk_map
    \<Rightarrow> ref_pool \<Rightarrow> nat \<Rightarrow> enum_catalog \<Rightarrow> string \<Rightarrow> string \<Rightarrow> pyval list \<Rightarrow> pyval list
    \<Rightarrow> nat \<Rightarrow> row list \<Rightarrow> (pyval \<times> pyval) set \<Rightarrow> gstate
    \<Rightarrow> py_error + row list \<times> (pyval \<times> pyval) set \<times> gstate" where
  "booking_discount_body e table_lc cols fkm ref_ids n_rows enums booking_id_col promo_id_col
      booking_ids promo_ids i rows seen st =
     (case randint 0 2 st of
        (k, st1) \<Rightarrow>
          (if k = 0 then Inr (rows, seen, st1)
           else
             (case booking_discount_inner e table_lc cols fkm ref_ids n_rows enums
                     booking_id_col promo_id_col promo_ids
                     (booking_ids ! (i mod length booking_ids)) (nat k) rows seen st1 of
                Inl err \<Rightarrow> Inl err
              | Inr (rows1, seen1, st2) \<Rightarrow>
                  (if n_rows * 20 < i + 1 \<and> length rows1 < n_rows
                   then discount_fill_bookings e table_lc cols fkm ref_ids n_rows enums
                          booking_id_col promo_id_col promo_ids booking_ids rows1 seen1 st2
                   else Inr (rows1, seen1, st2)))))"

partial_function (option) booking_discount_loop :: "env \<Rightarrow> string \<Rightarrow> ColumnInfo list \<Rightarrow> fk_map
    \<Rightarrow> ref_pool \<Rightarrow> nat \<Rightarrow> enum_catalog \<Rightarrow> string \<Rightarrow> string \<Rightarrow> pyval list \<Rightarrow> pyval list
    \<Rightarrow> nat \<Rightarrow> row list \<Rightarrow> (pyval \<times> pyval) set \<Rightarrow> gstate
    \<Rightarrow> (py_error + row list \<times> gstate) option" where
  "booking_discount_loop e table_lc cols fkm ref_ids n_rows enums booking_id_col promo_id_col
      booking_ids promo_ids i rows seen st =
     (if n_rows \<le> length rows then Some (Inr (rows, st))
      else
        (case booking_discount_body e table_lc cols fkm ref_ids n_rows enums booking_id_col
                promo_id_col booking_ids promo_ids i rows seen st of
           Inl err \<Rightarrow> Some (Inl err)
         | Inr (rows1, seen1, st1) \<Rightarrow>
             booking_discount_loop e table_lc cols fkm ref_ids n_rows enums booking_id_col
               promo_id_col booking_ids promo_ids (i + 1) rows1 seen1 st1))"

text \<open>
  \<^verbatim>\<open>generate_booking_discount_csv\<close>: the promotion column is
  \<^verbatim>\<open>col_lc.get("promotion_id") or col_lc.get("promo_id")\<close>; after the shuffle the
  capacity check raises when \<open>n_rows\<close> exceeds the number of pairs.
\<close>

definition generate_booking_discount_csv :: "env \<Rightarrow> string \<Rightarrow> ColumnInfo list \<Rightarrow> fk_map
    \<Rightarrow> ref_pool \<Rightarrow> nat \<Rightarrow> enum_catalog \<Rightarrow> gstate
    \<Rightarrow> (py_error + pyval list list \<times> gstate) option" where
  "generate_booking_discount_csv e tbl cols fkm ref_ids n_rows enums st =
     (let booking_id_col = col_lc_get cols ''booking_id'';
          promo_id_col = (if named (col_lc_get cols ''promotion_id'')
                          then col_lc_get cols ''promotion_id'' else col_lc_get cols ''promo_id'')
      in
      (case (booking_id_col, promo_id_col) of
         (Some bc, Some pc) \<Rightarrow>
           (if bc = [] \<or> pc = []
            then Some (Inl (RuntimeError
                   ''booking_discount expected booking_id and promotion_id columns.''))
            else
              (let booking_ids = pool_get ref_ids ''booking'';
                   promo_ids = pool_get ref_ids ''promotion''
               in
               if booking_ids = [] \<or> promo_ids = []
               then Some (Inl (RuntimeError
                      ''booking_discount needs booking + promotion ids loaded first.''))
               else
                 (case shuffle booking_ids st of
                    (shuffled, st1) \<Rightarrow>
                      (let max_pairs = length shuffled * length promo_ids in
                       if max_pairs < n_rows
                       then Some (Inl (RuntimeError
                              (''Requested '' @ dec_str n_rows @ '' booking_discount rows but only ''
                               @ dec_str max_pairs
                               @ '' unique (booking_id,promotion_id) pairs exist.'')))
                       else
                         map_option
                           (\<lambda>res. case res of
                                     Inl err \<Rightarrow> Inl err
                                   | Inr (rows, st2) \<Rightarrow>
                                       Inr (map (csv_line cols) (take n_rows rows), st2))
                           (booking_discount_loop e (lower tbl) cols fkm ref_ids n_rows enums
                              bc pc shuffled promo_ids 0 [] {} st1)))))
       | _ \<Rightarrow> Some (Inl (RuntimeError
                ''booking_discount expected booking_id and promotion_id columns.''))))"


subsection \<open>A request beyond the number of pairs\<close>

lemma choice_member:
  "xs \<noteq> [] \<Longrightarrow> \<exists>x st'. choice xs st = Inr (x, st') \<and> x \<in> set xs"
  by (cases "rnd st") (simp add: choice_def)

lemma booking_room_inner_all_seen:
  assumes "room_ids \<noteq> []" and "\<forall>r \<in> set room_ids. (b, r) \<in> seen"
  shows "\<exists>st'. booking_room_inner e tlc cols fkm ref_ids n_rows enums bc rc room_ids b k
           rows seen st = Inr (rows, seen, st')"
proof (induction k arbitrary: st)
  case 0
  show ?case by simp
next
  case (Suc k)
  from choice_member [OF assms(1), of st] obtain r st1 where
    c: "choice room_ids st = Inr (r, st1)" and r: "r \<in> set room_ids"
    by blast
  have "(b, r) \<in> seen" using assms(2) r by blast
  then have "booking_room_inner e tlc cols fkm ref_ids n_rows enums bc rc room_ids b (Suc k)
      rows seen st = booking_room_inner e tlc cols fkm ref_ids n_rows enums bc rc room_ids b k
      rows seen st1"
    using c by simp
  then show ?case using Suc.IH [of st1] by simp
qed

lemma booking_room_loop_stuck:
  assumes "booking_room_loop e tlc cols fkm ref_ids n_rows enums bc rc bids rids i rows seen st
             = Some y"
  shows "\<not> (length rows < n_rows \<and> rids \<noteq> [] \<and> bids \<noteq> [] \<and>
            (\<forall>b \<in> set bids. \<forall>r \<in> set rids. (b, r) \<in> seen))"
proof (rule booking_room_loop.raw_induct [where P = "\<lambda>e tlc cols fkm ref_ids n_rows enums bc rc
      bids rids i rows seen st y. \<not> (length rows < n_rows \<and> rids \<noteq> [] \<and> bids \<noteq> [] \<and>
            (\<forall>b \<in> set bids. \<forall>r \<in> set rids. (b, r) \<in> seen))", OF _ assms], goal_cases)
  case (1 loop e tlc cols fkm ref_ids n_rows enums bc rc bids rids i rows seen st y)
  show ?case
  proof
    assume inv: "length rows < n_rows \<and> rids \<noteq> [] \<and> bids \<noteq> [] \<and>
            (\<forall>b \<in> set bids. \<forall>r \<in> set rids. (b, r) \<in> seen)"
    obtain k st1 where ri: "randint 1 3 st = (k, st1)" by (cases "randint 1 3 st")
    let ?b = "bids ! (i mod length bids)"
    have "?b \<in> set bids" using inv by simp
    then have all: "\<forall>r \<in> set rids. (?b, r) \<in> seen" using inv by blast
    from booking_room_inner_all_seen [OF _ all, of e tlc cols fkm ref_ids n_rows enums bc rc
        "nat k" rows st1] inv
    obtain st2 where inner: "booking_room_inner e tlc cols fkm ref_ids n_rows enums bc rc rids ?b
        (nat k) rows seen st1 = Inr (rows, seen, st2)"
      by blast
    from 1(2) inv ri inner
    have "loop e tlc cols fkm ref_ids n_rows enums bc rc bids rids (i + 1) rows seen st2 = Some y"
      by simp
    from 1(1) [OF this] inv show False by blast
  qed
qed


definition booking_room_cols :: "ColumnInfo list" where
  "booking_room_cols = [mk_col ''booking_room'' ''booking_id'' ''integer'' ''int4'' False,
                        mk_col ''booking_room'' ''room_id'' ''integer'' ''int4'' False]"

definition booking_discount_cols :: "ColumnInfo list" where
  "booking_discount_cols = [mk_col ''booking_discount'' ''booking_id'' ''integer'' ''int4'' False,
                            mk_col ''booking_discount'' ''promotion_id'' ''integer'' ''int4'' False]"

definition one_pair_pool :: ref_pool where
  "one_pair_pool = [''booking'' \<mapsto> [PInt 1], ''room'' \<mapsto> [PInt 1], ''promotion'' \<mapsto> [PInt 1]]"

lemma shuffle_single: "fst (shuffle [x] st) = [x]"
  by (cases "draw (rand st)") (simp add: shuffle_def)

lemma randint_lower: "a \<le> fst (randint a b st)"
  by (cases "rnd st") (simp add: randint_def)

lemma booking_room_loop_one_pair:
  "booking_room_loop e ''booking_room'' booking_room_cols Map.empty one_pair_pool 2 enums
     ''booking_id'' ''room_id'' [PInt 1] [PInt 1] 0 [] {} st = None"
proof (cases "booking_room_loop e ''booking_room'' booking_room_cols Map.empty one_pair_pool 2 enums
     ''booking_id'' ''room_id'' [PInt 1] [PInt 1] 0 [] {} st")
  case None
  then show ?thesis .
next
  case (Some y)
  obtain k st1 where ri: "randint 1 3 st = (k, st1)" by (cases "randint 1 3 st")
  have "1 \<le> k" using randint_lower [of 1 3 st] ri by simp
  then obtain k' where k: "nat k = Suc k'" by (cases "nat k") auto
  obtain r st2 where c: "choice [PInt 1] st1 = Inr (r, st2)" and "r \<in> set [PInt 1]"
    using choice_member [of "[PInt 1]" st1] by blast
  then have r: "r = PInt 1" by simp
  let ?rw = "[''booking_id'' \<mapsto> PInt 1, ''room_id'' \<mapsto> PInt 1]"
  have fill: "fill_columns e ''booking_room'' Map.empty one_pair_pool enums 1 booking_room_cols
      ?rw st2 = Inr (?rw, st2)"
    by (simp add: booking_room_cols_def mk_col_def fill_column_def)
  obtain st3 where rest: "booking_room_inner e ''booking_room'' booking_room_cols Map.empty
      one_pair_pool 2 enums ''booking_id'' ''room_id'' [PInt 1] (PInt 1) k' [?rw]
      {(PInt 1, PInt 1)} st2 = Inr ([?rw], {(PInt 1, PInt 1)}, st3)"
    using booking_room_inner_all_seen [of "[PInt 1]" "PInt 1" "{(PInt 1, PInt 1)}" e
        "''booking_room''" booking_room_cols Map.empty one_pair_pool 2 enums "''booking_id''"
        "''room_id''" k' "[?rw]" st2]
    by auto
  have inner: "booking_room_inner e ''booking_room'' booking_room_cols Map.empty one_pair_pool 2
      enums ''booking_id'' ''room_id'' [PInt 1] (PInt 1) (nat k) [] {} st1
      = Inr ([?rw], {(PInt 1, PInt 1)}, st3)"
    using k c r fill rest by simp
  have "booking_room_loop e ''booking_room'' booking_room_cols Map.empty one_pair_pool 2 enums
     ''booking_id'' ''room_id'' [PInt 1] [PInt 1] 0 [] {} st
     = booking_room_loop e ''booking_room'' booking_room_cols Map.empty one_pair_pool 2 enums
     ''booking_id'' ''room_id'' [PInt 1] [PInt 1] (0 + 1) [?rw] {(PInt 1, PInt 1)} st3"
    by (subst booking_room_loop.simps) (simp add: ri inner)
  with Some have "booking_room_loop e ''booking_room'' booking_room_cols Map.empty one_pair_pool 2
     enums ''booking_id'' ''room_id'' [PInt 1] [PInt 1] (0 + 1) [?rw] {(PInt 1, PInt 1)} st3 = Some y"
    by simp
  from booking_room_loop_stuck [OF this] show ?thesis by simp
qed

text \<open>
  Claim C2 at a request beyond the capacity: with one booking and one room only one pair
  exists. Asked for two rows, \<^verbatim>\<open>generate_booking_room_csv\<close> never returns, whatever
  the random stream: it raises nothing and stays in its loop. On the same shape of input
  \<^verbatim>\<open>generate_booking_discount_csv\<close> raises its capacity error.
\<close>

theorem booking_room_loops_forever:
  "generate_booking_room_csv e ''booking_room'' booking_room_cols Map.empty one_pair_pool 2 enums st
     = None \<and>
   generate_booking_discount_csv e ''booking_discount'' booking_discount_cols Map.empty
     one_pair_pool 2 enums st
     = Some (Inl (RuntimeError
         ''Requested 2 booking_discount rows but only 1 unique (booking_id,promotion_id) pairs exist.''))"
proof
  have c1: "col_lc_get booking_room_cols ''booking_id'' = Some ''booking_id''" by code_simp
  have c2: "col_lc_get booking_room_cols ''room_id'' = Some ''room_id''" by code_simp
  have lt: "lower ''booking_room'' = ''booking_room''" by code_simp
  have pg: "pool_get one_pair_pool ''booking'' = [PInt 1]" "pool_get one_pair_pool ''room'' = [PInt 1]"
    by (simp_all add: pool_get_def one_pair_pool_def)
  obtain sh st1 where s: "shuffle [PInt 1] st = (sh, st1)" by (cases "shuffle [PInt 1] st")
  then have sh: "sh = [PInt 1]" using shuffle_single [of "PInt 1" st] by simp
  show "generate_booking_room_csv e ''booking_room'' booking_room_cols Map.empty one_pair_pool 2
      enums st = None"
    unfolding generate_booking_room_csv_def
    by (simp add: c1 c2 lt pg s sh booking_room_loop_one_pair)
next
  have c1: "col_lc_get booking_discount_cols ''booking_id'' = Some ''booking_id''" by code_simp
  have c2: "col_lc_get booking_discount_cols ''promotion_id'' = Some ''promotion_id''" by code_simp
  have pg: "pool_get one_pair_pool ''booking'' = [PInt 1]"
    "pool_get one_pair_pool ''promotion'' = [PInt 1]"
    by (simp_all add: pool_get_def one_pair_pool_def)
  have d: "dec_digit 2 = CHR ''2''" "dec_digit (Suc 0) = CHR ''1''" by code_simp+
  obtain sh st1 where s: "shuffle [PInt 1] st = (sh, st1)" by (cases "shuffle [PInt 1] st")
  then have sh: "sh = [PInt 1]" using shuffle_single [of "PInt 1" st] by simp
  show "generate_booking_discount_csv e ''booking_discount'' booking_discount_cols Map.empty
     one_pair_pool 2 enums st
     = Some (Inl (RuntimeError
         ''Requested 2 booking_discount rows but only 1 unique (booking_id,promotion_id) pairs exist.''))"
    unfolding generate_booking_discount_csv_def
    by (simp add: c1 c2 pg s sh d named_def)
qed


section \<open>Single-column uniqueness inside the assemblers\<close>

text \<open>
  The state an assembler carries from column to column and from row to row: the row under
  construction, the local variable \<^verbatim>\<open>v\<close> (\<open>None\<close> while it is unbound: reading it then
  raises \<^verbatim>\<open>UnboundLocalError\<close>), the dictionary \<^verbatim>\<open>seen_uniques\<close>, the list
  \<^verbatim>\<open>pk_vals\<close> and the generator state.
\<close>

record assembly =
  a_row :: row
  a_v :: "pyval option"
  a_seen :: "string \<rightharpoonup> pyval set"
  a_pk_vals :: "pyval list"
  a_st :: gstate

text \<open>
  The retry loop \<^verbatim>\<open>while v in seen_uniques[c.column] and tries < max_tries\<close>, run with
  \<open>max_tries = 50\<close>: the first argument counts the tries that remain.
\<close>

fun unique_retry :: "env \<Rightarrow> ColumnInfo \<Rightarrow> int \<Rightarrow> enum_catalog \<Rightarrow> pyval set \<Rightarrow> nat \<Rightarrow> nat
    \<Rightarrow> pyval \<Rightarrow> gstate \<Rightarrow> py_error + pyval \<times> nat \<times> gstate" where
  "unique_retry e c i enums seen_c 0 tries v st = Inr (v, tries, st)"
| "unique_retry e c i enums seen_c (Suc n) tries v st =
     (if v \<in> seen_c
      then (case generate_value e c (i + int (tries + 1)) enums st of
              Inl err \<Rightarrow> Inl err
            | Inr (v1, st1) \<Rightarrow> unique_retry e c i enums seen_c n (tries + 1) v1 st1)
      else Inr (v, tries, st))"

text \<open>
  The last resort, taken when the value is still in the set. For a string the code reads
  \<^verbatim>\<open>c.character_maximum_length\<close>; \<^verbatim>\<open>ColumnInfo\<close> has no such attribute (its field is
  \<^verbatim>\<open>char_max_len\<close>), so this raises. \<^verbatim>\<open>isinstance(v, int)\<close> holds for integers and for
  booleans. Nothing tests the new value against the set.
\<close>

definition force_unique :: "env \<Rightarrow> int \<Rightarrow> nat \<Rightarrow> pyval \<Rightarrow> gstate \<Rightarrow> py_error + pyval \<times> gstate" where
  "force_unique e i tries v st =
     (case v of
        PStr s \<Rightarrow> Inl AttributeError
      | PInt n \<Rightarrow> Inr (PInt (n + i * 1000 + int tries), st)
      | PBool b \<Rightarrow> Inr (PInt ((if b then 1 else 0) + i * 1000 + int tries), st)
      | _ \<Rightarrow> (case uuid_hex6 st of (h, st1) \<Rightarrow> Inr (PStr (py_str e v @ ''_'' @ h), st1)))"

text \<open>
  The block \<^verbatim>\<open>if c.column in seen_uniques and v is not None: ...\<close> up to
  \<^verbatim>\<open>seen_uniques[c.column].add(v)\<close>; it returns the new \<^verbatim>\<open>v\<close>. Outside its
  condition it changes nothing.
\<close>

definition enforce_unique :: "env \<Rightarrow> ColumnInfo \<Rightarrow> int \<Rightarrow> enum_catalog \<Rightarrow> pyval \<Rightarrow> assembly
    \<Rightarrow> py_error + pyval \<times> assembly" where
  "enforce_unique e c i enums v a =
     (case a_seen a (ColumnInfo.column c) of
        None \<Rightarrow> Inr (v, a)
      | Some seen_c \<Rightarrow>
          (if v = PNone then Inr (v, a)
           else
             (case unique_retry e c i enums seen_c 50 0 v (a_st a) of
                Inl err \<Rightarrow> Inl err
              | Inr (v1, tries, st1) \<Rightarrow>
                  (case (if v1 \<in> seen_c then force_unique e i tries v1 st1 else Inr (v1, st1)) of
                     Inl err \<Rightarrow> Inl err
                   | Inr (v2, st2) \<Rightarrow>
                       Inr (v2, a\<lparr>a_seen := (a_seen a)(ColumnInfo.column c \<mapsto> insert v2 seen_c),
                                  a_st := st2\<rparr>)))))"

text \<open>
  The replacement of a null in a non-nullable column, by the column's declared type. The
  text case goes through \<^verbatim>\<open>unique_text\<close>, whose result can be \<^verbatim>\<open>None\<close>.
\<close>

definition sentinel :: "env \<Rightarrow> ColumnInfo \<Rightarrow> pyval \<Rightarrow> gstate \<Rightarrow> pyval \<times> gstate" where
  "sentinel e c v st =
     (if v = PNone \<and> \<not> is_nullable c
      then
        (let dt = lower (data_type c) in
         if dt \<in> {''character varying'', ''character'', ''text''} then
           (case unique_text (unique_seen st) (ColumnInfo.table c, ColumnInfo.column c)
                   (\<lambda>g. case draw g of (r, g') \<Rightarrow> (''VAL_'' @ hex6 r, g'))
                   max_tries_default (rand st) of
              (w, us, g) \<Rightarrow> (w, st\<lparr>rand := g, unique_seen := us\<rparr>))
         else if dt \<in> {''integer'', ''bigint'', ''smallint''} then (PInt 1, st)
         else if dt = ''boolean'' then (PBool False, st)
         else if dt = ''date'' then (PDate (today e), st)
         else (PStr ''VAL'', st))
      else (v, st))"

section \<open>The status-dependent assembler: \<^verbatim>\<open>generate_stay_csv\<close>\<close>

text \<open>\<^verbatim>\<open>_register_unique(col, val)\<close>: the answer and the updated dictionary.\<close>

definition register_unique :: "string \<Rightarrow> pyval \<Rightarrow> (string \<rightharpoonup> pyval set)
    \<Rightarrow> bool \<times> (string \<rightharpoonup> pyval set)" where
  "register_unique col val su =
     (if val = PNone then (True, su)
      else (case su col of
              None \<Rightarrow> (True, su)
            | Some s \<Rightarrow> if val \<in> s then (False, su) else (True, su(col \<mapsto> insert val s))))"

text \<open>
  The loop \<^verbatim>\<open>for _ in range(50)\<close> that follows the sentinel: it stops at the first
  value that registers, and regenerates otherwise.
\<close>

fun register_loop :: "env \<Rightarrow> ColumnInfo \<Rightarrow> int \<Rightarrow> enum_catalog \<Rightarrow> nat \<Rightarrow> pyval \<Rightarrow> assembly
    \<Rightarrow> py_error + pyval \<times> assembly" where
  "register_loop e c i enums 0 v a = Inr (v, a)"
| "register_loop e c i enums (Suc n) v a =
     (case register_unique (ColumnInfo.column c) v (a_seen a) of
        (True, su) \<Rightarrow> Inr (v, a\<lparr>a_seen := su\<rparr>)
      | (False, su) \<Rightarrow>
          (case generate_value e c i enums (a_st a) of
             Inl err \<Rightarrow> Inl err
           | Inr (v1, st1) \<Rightarrow> register_loop e c i enums n v1 (a\<lparr>a_seen := su, a_st := st1\<rparr>)))"

text \<open>
  The body of \<^verbatim>\<open>for c in cols\<close> in \<^verbatim>\<open>generate_stay_csv\<close>. The foreign-key branch
  stores its choice in the row but neither assigns \<^verbatim>\<open>v\<close> nor continues; the statements
  after it run for every column, and the last one is \<^verbatim>\<open>row[c.column] = v\<close>.
\<close>

definition stay_column :: "env \<Rightarrow> string \<Rightarrow> fk_map \<Rightarrow> ref_pool \<Rightarrow> enum_catalog \<Rightarrow> int
    \<Rightarrow> ColumnInfo \<Rightarrow> assembly \<Rightarrow> py_error + assembly" where
  "stay_column e table_lc fkm ref_ids enums i c a =
     (let cn = ColumnInfo.column c in
      if cn \<in> dom (a_row a) then Inr a
      else
        bind_err
          (case fkm (table_lc, cn) of
             Some (parent_table, rc) \<Rightarrow>
               (let candidates = pool_get ref_ids parent_table in
                if candidates \<noteq> []
                then bind_err (choice candidates (a_st a))
                       (\<lambda>(x, st1). Inr (a\<lparr>a_row := (a_row a)(cn \<mapsto> x), a_st := st1\<rparr>))
                else Inr (a\<lparr>a_row := (a_row a)(cn \<mapsto> (if is_nullable c then PNone else PInt 1))\<rparr>))
           | None \<Rightarrow>
               bind_err (generate_value e c i enums (a_st a))
                 (\<lambda>(v, st1). Inr (a\<lparr>a_v := Some v, a_st := st1\<rparr>)))
          (\<lambda>a1.
             (case a_v a1 of
                None \<Rightarrow> Inl UnboundLocalError
              | Some v0 \<Rightarrow>
                  bind_err (enforce_unique e c i enums v0 a1) (\<lambda>(v1, a2).
                    (case sentinel e c v1 (a_st a2) of
                       (v2, st3) \<Rightarrow>
                         bind_err (if cn \<in> dom (a_seen a2)
                                   then register_loop e c i enums 50 v2 (a2\<lparr>a_st := st3\<rparr>)
                                   else Inr (v2, a2\<lparr>a_st := st3\<rparr>)) (\<lambda>(v3, a4).
                           bind_err (enforce_unique e c i enums v3 a4) (\<lambda>(v4, a5).
                             Inr (a5\<lparr>a_row := (a_row a5)(cn \<mapsto> v4), a_v := Some v4\<rparr>))))))))"

fun stay_columns :: "env \<Rightarrow> string \<Rightarrow> fk_map \<Rightarrow> ref_pool \<Rightarrow> enum_catalog \<Rightarrow> int
    \<Rightarrow> ColumnInfo list \<Rightarrow> assembly \<Rightarrow> py_error + assembly" where
  "stay_columns e table_lc fkm ref_ids enums i [] a = Inr a"
| "stay_columns e table_lc fkm ref_ids enums i (c # cs) a =
     (case stay_column e table_lc fkm ref_ids enums i c a of
        Inl err \<Rightarrow> Inl err
      | Inr a1 \<Rightarrow> stay_columns e table_lc fkm ref_ids enums i cs a1)"

text \<open>\<^verbatim>\<open>col or ""\<close>, and \<^verbatim>\<open>row[col] = val\<close> under \<^verbatim>\<open>if col:\<close>.\<close>

definition or_empty :: "string option \<Rightarrow> string" where
  "or_empty col = (case col of None \<Rightarrow> [] | Some cn \<Rightarrow> cn)"


definition set_if_named :: "string option \<Rightarrow> pyval \<Rightarrow> row \<Rightarrow> row" where
  "set_if_named col val r = (case col of None \<Rightarrow> r | Some cn \<Rightarrow> if cn = [] then r else r(cn \<mapsto> val))"

text \<open>
  The head of the row loop: the booking id, the sampled status and the two timestamps by
  scenario. A \<^verbatim>\<open>timedelta\<close> is counted in seconds.
\<close>

definition stay_prefill :: "env \<Rightarrow> string option \<Rightarrow> string option \<Rightarrow> string option
    \<Rightarrow> string option \<Rightarrow> bool \<Rightarrow> pyval list \<Rightarrow> string list \<Rightarrow> int \<Rightarrow> gstate
    \<Rightarrow> py_error + row \<times> gstate" where
  "stay_prefill e booking_id_col status_col aci_col aco_col is_booking_unique booking_ids
      stay_status_choices i st =
     bind_err
       (if named booking_id_col
        then (if is_booking_unique
              then (if 0 \<le> i - 1 \<and> nat (i - 1) < length booking_ids
                    then Inr (set_if_named booking_id_col (booking_ids ! nat (i - 1)) Map.empty, st)
                    else Inl IndexError)
              else (if booking_ids \<noteq> []
                    then bind_err (choice booking_ids st)
                           (\<lambda>(b, st1). Inr (set_if_named booking_id_col b Map.empty, st1))
                    else Inr (set_if_named booking_id_col (PInt 1) Map.empty, st)))
        else Inr (Map.empty, st))
       (\<lambda>(r0, st0).
          bind_err
            (if named status_col \<and> stay_status_choices \<noteq> []
             then bind_err (choice stay_status_choices st0)
                    (\<lambda>(sc, st1). Inr (Some sc, set_if_named status_col (PStr sc) r0, st1))
             else Inr (None, r0, st0))
            (\<lambda>(scenario, r1, st1).
               (let s = upper (case scenario of None \<Rightarrow> [] | Some sc \<Rightarrow> sc);
                    is_cancel = str_in ''CANCEL'' s;
                    is_out = str_in ''OUT'' s;
                    is_in = (str_in ''IN'' s \<and> \<not> is_out)
                in
                if is_cancel
                then Inr (set_if_named aco_col PNone (set_if_named aci_col PNone r1), st1)
                else if is_out
                then (case date_time_between e (-180) st1 of
                        (ci, st2) \<Rightarrow>
                          (case randint 1 10 st2 of
                             (days, st3) \<Rightarrow>
                               (case randint 0 6 st3 of
                                  (hours, st4) \<Rightarrow>
                                    (case randint 0 59 st4 of
                                       (minutes, st5) \<Rightarrow>
                                         Inr (set_if_named aco_col
                                                (PDateTime (ci + days * 86400 + hours * 3600
                                                   + minutes * 60))
                                                (set_if_named aci_col (PDateTime ci) r1), st5)))))
                else if is_in
                then (case date_time_between e (-180) st1 of
                        (ci, st2) \<Rightarrow>
                          Inr (set_if_named aco_col PNone
                                 (set_if_named aci_col (PDateTime ci) r1), st2))
                else Inr (set_if_named aco_col PNone (set_if_named aci_col PNone r1), st1))))"

text \<open>
  The repair after the column loop, under \<^verbatim>\<open>if aci_col and aco_col\<close>: Python compares
  two datetimes (or two dates) and raises on other pairs.
\<close>

definition py_less :: "pyval \<Rightarrow> pyval \<Rightarrow> py_error + bool" where
  "py_less x y =
     (case (x, y) of
        (PDateTime a, PDateTime b) \<Rightarrow> Inr (a < b)
      | (PDate a, PDate b) \<Rightarrow> Inr (a < b)
      | (PInt a, PInt b) \<Rightarrow> Inr (a < b)
      | (PStr a, PStr b) \<Rightarrow> Inr (a < b)
      | _ \<Rightarrow> Inl TypeError)"

definition plus_one_day :: "pyval \<Rightarrow> py_error + pyval" where
  "plus_one_day x =
     (case x of
        PDateTime a \<Rightarrow> Inr (PDateTime (a + 86400))
      | PDate a \<Rightarrow> Inr (PDate (a + 1))
      | _ \<Rightarrow> Inl TypeError)"

definition repair_order :: "string option \<Rightarrow> string option \<Rightarrow> row \<Rightarrow> py_error + row" where
  "repair_order first_col second_col r =
     (case (first_col, second_col) of
        (Some fc, Some sc) \<Rightarrow>
          (if fc = [] \<or> sc = [] then Inr r
           else
             (let ci = row_get r fc; co = row_get r sc in
              if ci = PNone \<or> co = PNone then Inr r
              else bind_err (py_less co ci)
                     (\<lambda>lt. if lt then bind_err (plus_one_day ci) (\<lambda>d. Inr (r(sc \<mapsto> d)))
                           else Inr r)))
      | _ \<Rightarrow> Inr r)"

text \<open>One pass of \<^verbatim>\<open>for i in range(1, n_rows + 1)\<close>; the row written is \<open>a_row\<close> of the result.\<close>

definition stay_row :: "env \<Rightarrow> string \<Rightarrow> ColumnInfo list \<Rightarrow> fk_map \<Rightarrow> ref_pool \<Rightarrow> enum_catalog
    \<Rightarrow> string option \<Rightarrow> string option \<Rightarrow> string option \<Rightarrow> string option \<Rightarrow> bool
    \<Rightarrow> pyval list \<Rightarrow> string list \<Rightarrow> int \<Rightarrow> assembly \<Rightarrow> py_error + assembly" where
  "stay_row e table_lc cols fkm ref_ids enums booking_id_col status_col aci_col aco_col
      is_booking_unique booking_ids stay_status_choices i a =
     bind_err (stay_prefill e booking_id_col status_col aci_col aco_col is_booking_unique
                 booking_ids stay_status_choices i (a_st a))
       (\<lambda>(r0, st0).
          bind_err (stay_columns e table_lc fkm ref_ids enums i cols (a\<lparr>a_row := r0, a_st := st0\<rparr>))
            (\<lambda>a1. bind_err (repair_order aci_col aco_col (a_row a1))
                     (\<lambda>r1. Inr (a1\<lparr>a_row := r1\<rparr>))))"

fun stay_rows :: "env \<Rightarrow> string \<Rightarrow> ColumnInfo list \<Rightarrow> fk_map \<Rightarrow> ref_pool \<Rightarrow> enum_catalog
    \<Rightarrow> string option \<Rightarrow> string option \<Rightarrow> string option \<Rightarrow> string option \<Rightarrow> bool
    \<Rightarrow> pyval list \<Rightarrow> string list \<Rightarrow> int list \<Rightarrow> assembly \<Rightarrow> py_error + row list \<times> assembly" where
  "stay_rows e table_lc cols fkm ref_ids enums booking_id_col status_col aci_col aco_col
      is_booking_unique booking_ids stay_status_choices [] a = Inr ([], a)"
| "stay_rows e table_lc cols fkm ref_ids enums booking_id_col status_col aci_col aco_col
      is_booking_unique booking_ids stay_status_choices (i # rest) a =
     (case stay_row e table_lc cols fkm ref_ids enums booking_id_col status_col aci_col aco_col
             is_booking_unique booking_ids stay_status_choices i a of
        Inl err \<Rightarrow> Inl err
      | Inr a1 \<Rightarrow>
          (case stay_rows e table_lc cols fkm ref_ids enums booking_id_col status_col aci_col
                  aco_col is_booking_unique booking_ids stay_status_choices rest a1 of
             Inl err \<Rightarrow> Inl err
           | Inr (rows, a2) \<Rightarrow> Inr (a_row a1 # rows, a2)))"

text \<open>
  \<^verbatim>\<open>generate_stay_csv\<close>, as the rows it writes (dictionaries) and as the lines of the
  file. \<^verbatim>\<open>unique_cols\<close> maps a lowercased table name to its single-column unique
  columns.
\<close>

type_synonym unique_columns = "string \<rightharpoonup> string set"

definition uniq_cols_of :: "unique_columns \<Rightarrow> string \<Rightarrow> string set" where
  "uniq_cols_of unique_cols table_lc = (case unique_cols table_lc of None \<Rightarrow> {} | Some s \<Rightarrow> s)"

definition fresh_seen :: "string set \<Rightarrow> (string \<rightharpoonup> pyval set)" where
  "fresh_seen cs = (\<lambda>c. if c \<in> cs then Some {} else None)"

text \<open>\<^verbatim>\<open>col_lc.get("stay_status") or col_lc.get("status")\<close>.\<close>

definition stay_status_col :: "ColumnInfo list \<Rightarrow> string option" where
  "stay_status_col cols =
     (if named (col_lc_get cols ''stay_status'')
      then col_lc_get cols ''stay_status'' else col_lc_get cols ''status'')"

definition generate_stay_rows :: "env \<Rightarrow> string \<Rightarrow> ColumnInfo list \<Rightarrow> fk_map \<Rightarrow> ref_pool \<Rightarrow> nat
    \<Rightarrow> enum_catalog \<Rightarrow> unique_columns \<Rightarrow> gstate \<Rightarrow> py_error + row list \<times> gstate" where
  "generate_stay_rows e tbl cols fkm ref_ids n_rows enums unique_cols st =
     (let table_lc = lower tbl;
          booking_id_col = col_lc_get cols ''booking_id'';
          status_col = stay_status_col cols;
          aci_col = col_lc_get cols ''actual_checkin_at'';
          aco_col = col_lc_get cols ''actual_checkout_at'';
          booking_ids = pool_get ref_ids ''booking'';
          is_booking_unique = (named booking_id_col
                               \<and> or_empty booking_id_col \<in> uniq_cols_of unique_cols table_lc)
      in
      if is_booking_unique \<and> length booking_ids < n_rows
      then Inl (RuntimeError
             (table_lc @ ''.'' @ [CHR 0x22] @ or_empty booking_id_col @ [CHR 0x22]
              @ '' is UNIQUE but only '' @ dec_str (length booking_ids)
              @ '' booking ids exist for requested n_rows='' @ dec_str n_rows @ ''.''))
      else
        (case (if is_booking_unique then shuffle booking_ids st else (booking_ids, st)) of
           (bids, st1) \<Rightarrow>
             (let stay_status_choices =
                    (case filter (\<lambda>c. ColumnInfo.column c = or_empty status_col) cols of
                       [] \<Rightarrow> []
                     | status_ci # others \<Rightarrow>
                         (case enums (lower (udt_name status_ci)) of None \<Rightarrow> [] | Some ls \<Rightarrow> ls))
              in
              (case stay_rows e table_lc cols fkm ref_ids enums booking_id_col status_col aci_col
                      aco_col is_booking_unique bids stay_status_choices
                      (map int [1..<Suc n_rows])
                      \<lparr>a_row = Map.empty, a_v = None,
                       a_seen = fresh_seen (uniq_cols_of unique_cols table_lc),
                       a_pk_vals = [], a_st = st1\<rparr> of
                 Inl err \<Rightarrow> Inl err
               | Inr (rows, a) \<Rightarrow> Inr (rows, a_st a)))))"

definition generate_stay_csv :: "env \<Rightarrow> string \<Rightarrow> ColumnInfo list \<Rightarrow> fk_map \<Rightarrow> ref_pool \<Rightarrow> nat
    \<Rightarrow> enum_catalog \<Rightarrow> unique_columns \<Rightarrow> gstate \<Rightarrow> py_error + pyval list list \<times> gstate" where
  "generate_stay_csv e tbl cols fkm ref_ids n_rows enums unique_cols st =
     (case generate_stay_rows e tbl cols fkm ref_ids n_rows enums unique_cols st of
        Inl err \<Rightarrow> Inl err
      | Inr (rows, st1) \<Rightarrow> Inr (map (csv_line cols) rows, st1))"


definition stay_fk_cols :: "ColumnInfo list" where
  "stay_fk_cols = [mk_col ''stay'' ''stay_id'' ''integer'' ''int4'' False,
                   mk_col ''stay'' ''room_id'' ''integer'' ''int4'' False]"

definition stay_fks :: "ForeignKey list" where
  "stay_fks = [mk_fk ''stay'' ''room_id'' ''room'' ''room_id'']"

definition room_pool :: ref_pool where
  "room_pool = [''room'' \<mapsto> [PInt 10, PInt 20]]"

definition stay_unique_cols :: "ColumnInfo list" where
  "stay_unique_cols = [mk_col ''stay'' ''x'' ''double precision'' ''float8'' False]"

definition stay_x_unique :: unique_columns where
  "stay_x_unique = [''stay'' \<mapsto> {''x''}]"


subsection \<open>Timestamps of a stay row\<close>

lemma col_lc_get_lower: "col_lc_get cols k = Some cn \<Longrightarrow> lower cn = k"
proof -
  assume a: "col_lc_get cols k = Some cn"
  define fs where "fs = filter (\<lambda>c. lower (ColumnInfo.column c) = k) cols"
  from a have ne: "fs \<noteq> []" and cn: "cn = ColumnInfo.column (last fs)"
    by (auto simp: col_lc_get_def fs_def split: list.splits)
  from ne have "last fs \<in> set fs" by simp
  then have "lower (ColumnInfo.column (last fs)) = k" by (simp add: fs_def)
  then show ?thesis using cn by simp
qed

lemma enforce_unique_row:
  "enforce_unique e c i enums v a = Inr (v', a') \<Longrightarrow> a_row a' = a_row a"
  by (auto simp: enforce_unique_def split: option.splits if_splits sum.splits prod.splits)

lemma register_loop_row:
  "register_loop e c i enums n v a = Inr (v', a') \<Longrightarrow> a_row a' = a_row a"
proof (induction n arbitrary: v a)
  case 0
  then show ?case by simp
next
  case (Suc n)
  obtain b su where ru: "register_unique (ColumnInfo.column c) v (a_seen a) = (b, su)"
    by (cases "register_unique (ColumnInfo.column c) v (a_seen a)")
  show ?case
  proof (cases b)
    case True
    with Suc.prems ru show ?thesis by auto
  next
    case False
    with Suc.prems ru obtain v1 st1 where
      g: "generate_value e c i enums (a_st a) = Inr (v1, st1)"
      and r: "register_loop e c i enums n v1 (a\<lparr>a_seen := su, a_st := st1\<rparr>) = Inr (v', a')"
      by (auto split: sum.splits)
    from Suc.IH [OF r] show ?thesis by simp
  qed
qed

lemma stay_column_keeps:
  assumes "stay_column e tlc fkm ref_ids enums i c a = Inr a'" and "a_row a k = Some x"
  shows "a_row a' k = Some x"
proof (cases "ColumnInfo.column c \<in> dom (a_row a)")
  case True
  with assms show ?thesis by (simp add: stay_column_def)
next
  case False
  then have ne: "ColumnInfo.column c \<noteq> k" using assms(2) by auto
  show ?thesis
    using assms False ne
    by (auto simp: stay_column_def bind_err_def Let_def
        split: sum.splits option.splits prod.splits if_splits
        dest!: enforce_unique_row register_loop_row)
qed

lemma stay_columns_keeps:
  "stay_columns e tlc fkm ref_ids enums i cs a = Inr a' \<Longrightarrow> a_row a k = Some x \<Longrightarrow>
     a_row a' k = Some x"
proof (induction cs arbitrary: a)
  case Nil
  then show ?case by simp
next
  case (Cons c cs)
  from Cons.prems(1) obtain a1 where
    c: "stay_column e tlc fkm ref_ids enums i c a = Inr a1"
    and r: "stay_columns e tlc fkm ref_ids enums i cs a1 = Inr a'"
    by (auto split: sum.splits)
  from stay_column_keeps [OF c Cons.prems(2)] have "a_row a1 k = Some x" .
  from Cons.IH [OF r this] show ?case .
qed


text \<open>
  What holds of the two timestamps of a row: both are null, or the sampled status does not
  contain CANCEL (in upper case), the check-in is a time, and the check-out is null or a
  strictly later time.
\<close>

definition stay_row_ok :: "string option \<Rightarrow> string \<Rightarrow> string \<Rightarrow> row \<Rightarrow> bool" where
  "stay_row_ok status_col aci aco r \<longleftrightarrow>
     (r aci = Some PNone \<and> r aco = Some PNone) \<or>
     (\<exists>sc scen ci. status_col = Some sc \<and> r sc = Some (PStr scen)
        \<and> \<not> str_in ''CANCEL'' (upper scen) \<and> r aci = Some (PDateTime ci)
        \<and> (r aco = Some PNone \<or> (\<exists>co. r aco = Some (PDateTime co) \<and> ci < co)))"

lemma stay_scenario_times:
  assumes "randint 1 10 s2 = (days, s3)" "randint 0 6 s3 = (hours, s4)"
    "randint 0 59 s4 = (minutes, s5)"
  shows "ci < ci + days * 86400 + hours * 3600 + minutes * 60"
proof -
  have "1 \<le> days" using randint_lower [of 1 10 s2] assms(1) by simp
  moreover have "0 \<le> hours" using randint_lower [of 0 6 s3] assms(2) by simp
  moreover have "0 \<le> minutes" using randint_lower [of 0 59 s4] assms(3) by simp
  ultimately show ?thesis by simp
qed

lemma stay_prefill_ok:
  assumes run: "stay_prefill e bcol status_col (Some aci) (Some aco) ibu bids choices i st
                  = Inr (r0, st0)"
    and ne: "aci \<noteq> []" "aco \<noteq> []" "aci \<noteq> aco"
    and sc: "\<forall>sc. status_col = Some sc \<longrightarrow> sc \<noteq> aci \<and> sc \<noteq> aco"
  shows "stay_row_ok status_col aci aco r0"
proof -
  from run obtain rb sb where
    rest: "bind_err
            (if named status_col \<and> choices \<noteq> []
             then bind_err (choice choices sb)
                    (\<lambda>(sc, st1). Inr (Some sc, set_if_named status_col (PStr sc) rb, st1))
             else Inr (None, rb, sb))
            (\<lambda>(scenario, r1, st1).
               (let s = upper (case scenario of None \<Rightarrow> [] | Some sc \<Rightarrow> sc);
                    is_cancel = str_in ''CANCEL'' s;
                    is_out = str_in ''OUT'' s;
                    is_in = (str_in ''IN'' s \<and> \<not> is_out)
                in
                if is_cancel
                then Inr (set_if_named (Some aco) PNone (set_if_named (Some aci) PNone r1), st1)
                else if is_out
                then (case date_time_between e (-180) st1 of
                        (ci, st2) \<Rightarrow>
                          (case randint 1 10 st2 of
                             (days, st3) \<Rightarrow>
                               (case randint 0 6 st3 of
                                  (hours, st4) \<Rightarrow>
                                    (case randint 0 59 st4 of
                                       (minutes, st5) \<Rightarrow>
                                         Inr (set_if_named (Some aco)
                                                (PDateTime (ci + days * 86400 + hours * 3600
                                                   + minutes * 60))
                                                (set_if_named (Some aci) (PDateTime ci) r1), st5)))))
                else if is_in
                then (case date_time_between e (-180) st1 of
                        (ci, st2) \<Rightarrow>
                          Inr (set_if_named (Some aco) PNone
                                 (set_if_named (Some aci) (PDateTime ci) r1), st2))
                else Inr (set_if_named (Some aco) PNone (set_if_named (Some aci) PNone r1), st1)))
          = Inr (r0, st0)"
    unfolding stay_prefill_def bind_err_def by (auto split: sum.splits)
  show ?thesis
  proof (cases "named status_col \<and> choices \<noteq> []")
    case False
    have e: "upper [] = []" by (simp add: upper_def)
    from rest False have "r0 = set_if_named (Some aco) PNone (set_if_named (Some aci) PNone rb)"
      by (simp add: bind_err_def e)
    then show ?thesis using ne by (simp add: stay_row_ok_def set_if_named_def)
  next
    case True
    then obtain sc where scn: "status_col = Some sc" "sc \<noteq> []"
      by (auto simp: named_def split: option.splits)
    then have d: "sc \<noteq> aci" "sc \<noteq> aco" using sc by auto
    from rest True obtain scen s1 where
      ch: "choice choices sb = Inr (scen, s1)"
      by (auto simp: bind_err_def split: sum.splits)
    let ?r1 = "rb(sc \<mapsto> PStr scen)"
    let ?s = "upper scen"
    have r1: "set_if_named status_col (PStr scen) rb = ?r1"
      using scn by (simp add: set_if_named_def)
    show ?thesis
    proof (cases "str_in ''CANCEL'' ?s")
      case True
      with rest \<open>named status_col \<and> choices \<noteq> []\<close> ch r1
      have "r0 = set_if_named (Some aco) PNone (set_if_named (Some aci) PNone ?r1)"
        by (simp add: bind_err_def)
      then show ?thesis using ne by (simp add: stay_row_ok_def set_if_named_def)
    next
      case nc: False
      show ?thesis
      proof (cases "str_in ''OUT'' ?s")
        case True
        obtain ci s2 where a: "date_time_between e (-180) s1 = (ci, s2)"
          by (cases "date_time_between e (-180) s1")
        obtain days s3 where b: "randint 1 10 s2 = (days, s3)" by (cases "randint 1 10 s2")
        obtain hours s4 where c: "randint 0 6 s3 = (hours, s4)" by (cases "randint 0 6 s3")
        obtain minutes s5 where m: "randint 0 59 s4 = (minutes, s5)" by (cases "randint 0 59 s4")
        from rest \<open>named status_col \<and> choices \<noteq> []\<close> ch r1 nc True a b c m
        have "r0 = set_if_named (Some aco)
                     (PDateTime (ci + days * 86400 + hours * 3600 + minutes * 60))
                     (set_if_named (Some aci) (PDateTime ci) ?r1)"
          by (simp add: bind_err_def)
        then have "r0 sc = Some (PStr scen)" "r0 aci = Some (PDateTime ci)"
          "r0 aco = Some (PDateTime (ci + days * 86400 + hours * 3600 + minutes * 60))"
          using ne d by (simp_all add: set_if_named_def)
        then show ?thesis
          using scn nc stay_scenario_times [OF b c m, of ci]
          unfolding stay_row_ok_def by blast
      next
        case no: False
        show ?thesis
        proof (cases "str_in ''IN'' ?s")
          case True
          obtain ci s2 where a: "date_time_between e (-180) s1 = (ci, s2)"
            by (cases "date_time_between e (-180) s1")
          from rest \<open>named status_col \<and> choices \<noteq> []\<close> ch r1 nc no True a
          have "r0 = set_if_named (Some aco) PNone (set_if_named (Some aci) (PDateTime ci) ?r1)"
            by (simp add: bind_err_def)
          then have "r0 sc = Some (PStr scen)" "r0 aci = Some (PDateTime ci)" "r0 aco = Some PNone"
            using ne d by (simp_all add: set_if_named_def)
          then show ?thesis using scn nc unfolding stay_row_ok_def by blast
        next
          case False
          with rest \<open>named status_col \<and> choices \<noteq> []\<close> ch r1 nc no
          have "r0 = set_if_named (Some aco) PNone (set_if_named (Some aci) PNone ?r1)"
            by (simp add: bind_err_def)
          then show ?thesis using ne by (simp add: stay_row_ok_def set_if_named_def)
        qed
      qed
    qed
  qed
qed


lemma stay_row_ok_mono:
  assumes "stay_row_ok status_col aci aco r" and "\<And>k x. r k = Some x \<Longrightarrow> r' k = Some x"
  shows "stay_row_ok status_col aci aco r'"
  using assms unfolding stay_row_ok_def by blast

lemma repair_order_ok:
  assumes "repair_order (Some aci) (Some aco) r = Inr r'" and "stay_row_ok status_col aci aco r"
  shows "r' = r"
proof -
  from assms(2) consider
    (null) "r aci = Some PNone \<or> r aco = Some PNone"
    | (both) ci co where "r aci = Some (PDateTime ci)" "r aco = Some (PDateTime co)" "ci < co"
    unfolding stay_row_ok_def by blast
  then show ?thesis
  proof cases
    case null
    then have "row_get r aci = PNone \<or> row_get r aco = PNone" by (auto simp: row_get_def)
    with assms(1) show ?thesis
      by (auto simp: repair_order_def Let_def split: if_splits)
  next
    case both
    then have "row_get r aci = PDateTime ci" "row_get r aco = PDateTime co"
      by (simp_all add: row_get_def)
    with assms(1) both(3) show ?thesis
      by (auto simp: repair_order_def Let_def bind_err_def py_less_def split: if_splits)
  qed
qed

lemma stay_row_ok_result:
  assumes run: "stay_row e tlc cols fkm ref_ids enums bcol status_col (Some aci) (Some aco) ibu bids
                  choices i a = Inr a1"
    and ne: "aci \<noteq> []" "aco \<noteq> []" "aci \<noteq> aco"
    and sc: "\<forall>sc. status_col = Some sc \<longrightarrow> sc \<noteq> aci \<and> sc \<noteq> aco"
  shows "stay_row_ok status_col aci aco (a_row a1)"
proof -
  from run obtain r0 st0 a2 r1 where
    p: "stay_prefill e bcol status_col (Some aci) (Some aco) ibu bids choices i (a_st a) = Inr (r0, st0)"
    and c: "stay_columns e tlc fkm ref_ids enums i cols (a\<lparr>a_row := r0, a_st := st0\<rparr>) = Inr a2"
    and r: "repair_order (Some aci) (Some aco) (a_row a2) = Inr r1"
    and a1: "a1 = a2\<lparr>a_row := r1\<rparr>"
    by (auto simp: stay_row_def bind_err_def split: sum.splits)
  have ok0: "stay_row_ok status_col aci aco r0"
    using stay_prefill_ok [OF p ne sc] .
  have "\<And>k x. r0 k = Some x \<Longrightarrow> a_row a2 k = Some x"
    using stay_columns_keeps [OF c] by simp
  then have ok2: "stay_row_ok status_col aci aco (a_row a2)"
    using stay_row_ok_mono [OF ok0] by blast
  from repair_order_ok [OF r ok2] a1 ok2 show ?thesis by simp
qed

lemma stay_rows_ok:
  assumes "stay_rows e tlc cols fkm ref_ids enums bcol status_col (Some aci) (Some aco) ibu bids
             choices idxs a = Inr (rows, a')"
    and "aci \<noteq> []" "aco \<noteq> []" "aci \<noteq> aco"
    and "\<forall>sc. status_col = Some sc \<longrightarrow> sc \<noteq> aci \<and> sc \<noteq> aco"
    and "r \<in> set rows"
  shows "stay_row_ok status_col aci aco r"
  using assms(1,6)
proof (induction idxs arbitrary: a rows)
  case Nil
  then show ?case by simp
next
  case (Cons i rest)
  from Cons.prems(1) obtain a1 rows1 where
    one: "stay_row e tlc cols fkm ref_ids enums bcol status_col (Some aci) (Some aco) ibu bids
            choices i a = Inr a1"
    and more: "stay_rows e tlc cols fkm ref_ids enums bcol status_col (Some aci) (Some aco) ibu bids
            choices rest a1 = Inr (rows1, a')"
    and rows: "rows = a_row a1 # rows1"
    by (auto split: sum.splits)
  show ?case
  proof (cases "r = a_row a1")
    case True
    then show ?thesis using stay_row_ok_result [OF one assms(2-5)] by simp
  next
    case False
    then have "r \<in> set rows1" using Cons.prems(2) rows by simp
    from Cons.IH [OF more this] show ?thesis .
  qed
qed

lemma startswith_map: "startswith s p \<Longrightarrow> startswith (map f s) (map f p)"
  by (induction s p rule: startswith.induct) auto

lemma str_in_map: "str_in p s \<Longrightarrow> str_in (map f p) (map f s)"
proof (induction s)
  case Nil
  then show ?case by simp
next
  case (Cons c s)
  then show ?case using startswith_map [of "c # s" p f] by auto
qed

lemma str_in_upper_CANCEL: "str_in ''CANCEL'' s \<Longrightarrow> str_in ''CANCEL'' (upper s)"
proof -
  have u: "upper ''CANCEL'' = ''CANCEL''" by code_simp
  assume "str_in ''CANCEL'' s"
  then have "str_in (upper ''CANCEL'') (upper s)" unfolding upper_def by (rule str_in_map)
  then show ?thesis using u by simp
qed

text \<open>
  The repair itself, on any row that holds two times: a check-out before the check-in is
  replaced by the check-in plus one day (86400 seconds), and nothing else changes. On a row
  that satisfies \<open>stay_row_ok\<close> it changes nothing.
\<close>

lemma repair_order_effect:
  assumes "aci \<noteq> []" "aco \<noteq> []"
    and "row_get r0 aci = PDateTime ci" "row_get r0 aco = PDateTime co"
  shows "repair_order (Some aci) (Some aco) r0
           = Inr (if co < ci then r0(aco \<mapsto> PDateTime (ci + 86400)) else r0)"
  using assms
  by (simp add: repair_order_def Let_def bind_err_def py_less_def plus_one_day_def)

lemma repair_order_fixed:
  assumes "aci \<noteq> []" "aco \<noteq> []" and "stay_row_ok status_col aci aco r"
  shows "repair_order (Some aci) (Some aco) r = Inr r"
  using assms
  by (auto simp: stay_row_ok_def repair_order_def Let_def bind_err_def py_less_def
      plus_one_day_def row_get_def)

text \<open>
  Claim C6. For every row the stay assembler writes: when its status value contains
  CANCEL (as it is, or in upper case, which is what the code tests) both actual timestamps
  are null; and when both timestamps are present the check-out is not before the check-in.
  The repair after the column loop, applied to any row whose check-out is before its
  check-in, sets the check-out to the check-in plus one day; applied to a row the assembler
  writes it changes nothing (the check-out the scenario branch draws is strictly later, so
  on these rows the repair does not fire).
\<close>

theorem stay_timestamps_consistent:
  assumes "generate_stay_rows e tbl cols fkm ref_ids n_rows enums unique_cols st = Inr (rows, st')"
    and "r \<in> set rows"
    and "col_lc_get cols ''actual_checkin_at'' = Some aci"
    and "col_lc_get cols ''actual_checkout_at'' = Some aco"
  shows "(\<forall>sc s. stay_status_col cols = Some sc \<and> row_get r sc = PStr s
            \<and> (str_in ''CANCEL'' s \<or> str_in ''CANCEL'' (upper s))
            \<longrightarrow> row_get r aci = PNone \<and> row_get r aco = PNone) \<and>
         (\<forall>ci co. row_get r aci = PDateTime ci \<and> row_get r aco = PDateTime co \<longrightarrow> ci \<le> co) \<and>
         (\<forall>r0 ci co. row_get r0 aci = PDateTime ci \<and> row_get r0 aco = PDateTime co \<and> co < ci
            \<longrightarrow> repair_order (Some aci) (Some aco) r0
                  = Inr (r0(aco \<mapsto> PDateTime (ci + 86400)))) \<and>
         repair_order (Some aci) (Some aco) r = Inr r"
proof -
  have la: "lower aci = ''actual_checkin_at''" using col_lc_get_lower [OF assms(3)] .
  have lo: "lower aco = ''actual_checkout_at''" using col_lc_get_lower [OF assms(4)] .
  have le: "lower [] = []" by (simp add: lower_def)
  have ne: "aci \<noteq> []" "aco \<noteq> []" "aci \<noteq> aco" using la lo le by auto
  have sc: "\<forall>sc. stay_status_col cols = Some sc \<longrightarrow> sc \<noteq> aci \<and> sc \<noteq> aco"
  proof (intro allI impI)
    fix sc assume "stay_status_col cols = Some sc"
    then have "lower sc = ''stay_status'' \<or> lower sc = ''status''"
      by (auto simp: stay_status_col_def split: if_splits dest: col_lc_get_lower)
    then show "sc \<noteq> aci \<and> sc \<noteq> aco" using la lo by auto
  qed
  from assms(1) obtain bids st1 choices ibu a' where
    "stay_rows e (lower tbl) cols fkm ref_ids enums (col_lc_get cols ''booking_id'')
       (stay_status_col cols) (Some aci) (Some aco) ibu bids choices (map int [1..<Suc n_rows])
       \<lparr>a_row = Map.empty, a_v = None,
        a_seen = fresh_seen (uniq_cols_of unique_cols (lower tbl)),
        a_pk_vals = [], a_st = st1\<rparr> = Inr (rows, a')"
    unfolding generate_stay_rows_def Let_def assms(3,4)
    by (auto split: if_splits prod.splits sum.splits)
  from stay_rows_ok [OF this ne sc assms(2)]
  have ok: "stay_row_ok (stay_status_col cols) aci aco r" .
  show ?thesis
  proof (intro conjI allI impI)
    fix sc s
    assume h: "stay_status_col cols = Some sc \<and> row_get r sc = PStr s
                 \<and> (str_in ''CANCEL'' s \<or> str_in ''CANCEL'' (upper s))"
    then have up: "str_in ''CANCEL'' (upper s)" using str_in_upper_CANCEL by blast
    from ok show "row_get r aci = PNone"
      unfolding stay_row_ok_def using h up by (auto simp: row_get_def)
    from ok show "row_get r aco = PNone"
      unfolding stay_row_ok_def using h up by (auto simp: row_get_def)
  next
    fix ci co
    assume "row_get r aci = PDateTime ci \<and> row_get r aco = PDateTime co"
    with ok show "ci \<le> co"
      unfolding stay_row_ok_def by (auto simp: row_get_def)
  next
    fix r0 ci co
    assume "row_get r0 aci = PDateTime ci \<and> row_get r0 aco = PDateTime co \<and> co < ci"
    then show "repair_order (Some aci) (Some aco) r0 = Inr (r0(aco \<mapsto> PDateTime (ci + 86400)))"
      using repair_order_effect [OF ne(1) ne(2), of r0 ci co] by simp
  next
    show "repair_order (Some aci) (Some aco) r = Inr r"
      using repair_order_fixed [OF ne(1) ne(2) ok] .
  qed
qed

definition stay_status_cols :: "ColumnInfo list" where
  "stay_status_cols =
     [mk_col ''stay'' ''stay_id'' ''integer'' ''int4'' False,
      mk_col ''stay'' ''stay_status'' ''USER-DEFINED'' ''stay_status'' False,
      mk_col ''stay'' ''actual_checkin_at'' ''timestamp with time zone'' ''timestamptz'' True,
      mk_col ''stay'' ''actual_checkout_at'' ''timestamp with time zone'' ''timestamptz'' True]"

definition stay_enums :: enum_catalog where
  "stay_enums = [''stay_status'' \<mapsto> [''CANCELLED'', ''CHECKED_OUT'', ''CHECKED_IN'']]"

definition stay_demo_rng :: rng where
  "stay_demo_rng = rng_of [0, 1, 100, 2, 3, 4, 2, 50]"

text \<open>A row as the column loop could not leave it: the check-out is before the check-in.\<close>

definition late_row :: row where
  "late_row = [''actual_checkin_at'' \<mapsto> PDateTime 100, ''actual_checkout_at'' \<mapsto> PDateTime 50]"

theorem stay_timestamps_consistent_witness:
  "\<exists>rows st'.
     generate_stay_rows demo_env ''stay'' stay_status_cols Map.empty Map.empty 3 stay_enums
       Map.empty (init_state stay_demo_rng) = Inr (rows, st') \<and>
     map (csv_line stay_status_cols) rows =
       [[PInt 1, PStr ''CANCELLED'', PNone, PNone],
        [PInt 2, PStr ''CHECKED_OUT'', PDateTime 1712448100, PDateTime 1712718340],
        [PInt 3, PStr ''CHECKED_IN'', PDateTime 1712448050, PNone]] \<and>
     col_lc_get stay_status_cols ''actual_checkin_at'' = Some ''actual_checkin_at'' \<and>
     col_lc_get stay_status_cols ''actual_checkout_at'' = Some ''actual_checkout_at'' \<and>
     stay_status_col stay_status_cols = Some ''stay_status'' \<and>
     row_get (rows ! 0) ''stay_status'' = PStr ''CANCELLED'' \<and>
     str_in ''CANCEL'' ''CANCELLED'' \<and>
     row_get (rows ! 0) ''actual_checkin_at'' = PNone \<and>
     row_get (rows ! 0) ''actual_checkout_at'' = PNone \<and>
     row_get late_row ''actual_checkin_at'' = PDateTime 100 \<and>
     row_get late_row ''actual_checkout_at'' = PDateTime 50 \<and>
     repair_order (Some ''actual_checkin_at'') (Some ''actual_checkout_at'') late_row
       = Inr (late_row(''actual_checkout_at'' \<mapsto> PDateTime 86500)) \<and>
     repair_order (Some ''actual_checkin_at'') (Some ''actual_checkout_at'') (rows ! 0)
       = Inr (rows ! 0)"
proof -
  let ?L = "[[PInt 1, PStr ''CANCELLED'', PNone, PNone],
        [PInt 2, PStr ''CHECKED_OUT'', PDateTime 1712448100, PDateTime 1712718340],
        [PInt 3, PStr ''CHECKED_IN'', PDateTime 1712448050, PNone]]"
  let ?run = "generate_stay_rows demo_env ''stay'' stay_status_cols Map.empty Map.empty 3
       stay_enums Map.empty (init_state stay_demo_rng)"
  have ev: "(case ?run of Inl err \<Rightarrow> False
             | Inr (rows, st') \<Rightarrow> map (csv_line stay_status_cols) rows = ?L)"
    by code_simp
  then obtain rows st' where g: "?run = Inr (rows, st')"
    and lines: "map (csv_line stay_status_cols) rows = ?L"
    by (cases ?run) auto
  have "length (map (csv_line stay_status_cols) rows) = 3" unfolding lines by simp
  then have len: "length rows = 3" by simp
  then have mem: "rows ! 0 \<in> set rows" by simp
  have "map (csv_line stay_status_cols) rows ! 0 = csv_line stay_status_cols (rows ! 0)"
    using len by (intro nth_map) simp
  then have "csv_line stay_status_cols (rows ! 0) = ?L ! 0"
    unfolding lines by simp
  then have st: "row_get (rows ! 0) ''stay_status'' = PStr ''CANCELLED''"
    by (simp add: csv_line_def stay_status_cols_def mk_col_def)
  have c1: "col_lc_get stay_status_cols ''actual_checkin_at'' = Some ''actual_checkin_at''"
    by code_simp
  have c2: "col_lc_get stay_status_cols ''actual_checkout_at'' = Some ''actual_checkout_at''"
    by code_simp
  have c3: "stay_status_col stay_status_cols = Some ''stay_status''" by code_simp
  have c4: "str_in ''CANCEL'' ''CANCELLED''" by code_simp
  note T = stay_timestamps_consistent [OF g mem c1 c2]
  from T [THEN conjunct1] st c3 c4
  have e: "row_get (rows ! 0) ''actual_checkin_at'' = PNone \<and>
        row_get (rows ! 0) ''actual_checkout_at'' = PNone"
    by blast
  from e have e1: "row_get (rows ! 0) ''actual_checkin_at'' = PNone" ..
  from e have e2: "row_get (rows ! 0) ''actual_checkout_at'' = PNone" ..
  have l1: "row_get late_row ''actual_checkin_at'' = PDateTime 100"
    by (simp add: late_row_def row_get_def)
  have l2: "row_get late_row ''actual_checkout_at'' = PDateTime 50"
    by (simp add: late_row_def row_get_def)
  have l3: "repair_order (Some ''actual_checkin_at'') (Some ''actual_checkout_at'') late_row
       = Inr (late_row(''actual_checkout_at'' \<mapsto> PDateTime 86500))"
    using T [THEN conjunct2, THEN conjunct2, THEN conjunct1, rule_format, of late_row 100 50]
      l1 l2 by simp
  have l4: "repair_order (Some ''actual_checkin_at'') (Some ''actual_checkout_at'') (rows ! 0)
       = Inr (rows ! 0)"
    using T [THEN conjunct2, THEN conjunct2, THEN conjunct2] .
  show ?thesis
    by (intro exI [of _ rows] exI [of _ st'] conjI g lines c1 c2 c3 st c4 e1 e2 l1 l2 l3 l4)
qed

subsection \<open>Foreign keys and non-null columns of a stay row\<close>

text \<open>
  Claim C1 at a stay table with a foreign key to \<open>room\<close> whose pool is \<open>[10, 20]\<close>: the
  room id written is 1, the value left in \<^verbatim>\<open>v\<close> by the column before it, for every
  random stream; 1 is not in the pool.
\<close>

theorem stay_foreign_key_overwritten:
  "map_sum id fst (generate_stay_csv e ''stay'' stay_fk_cols (build_fk_map stay_fks) room_pool 1
      Map.empty Map.empty st) = Inr [[PInt 1, PInt 1]] \<and>
   build_fk_map stay_fks (''stay'', ''room_id'') = Some (''room'', ''room_id'') \<and>
   pool_get room_pool ''room'' = [PInt 10, PInt 20]"
  by code_simp

text \<open>
  Claim C4 at a stay table whose only column is non-nullable, unique and of a type the
  synthesizer does not know: the synthesizer returns null, the sentinel for that column is
  the string VAL, and the row written still holds null, for every random stream.
\<close>

theorem stay_sentinel_undone:
  "map_sum id fst (generate_stay_csv e ''stay'' stay_unique_cols Map.empty Map.empty 1
      Map.empty stay_x_unique st) = Inr [[PNone]] \<and>
   map (\<lambda>c. (is_nullable c, map_sum id fst (generate_value e c 1 Map.empty st),
              fst (sentinel e c PNone st))) stay_unique_cols
     = [(False, Inr PNone, PStr ''VAL'')]"
  by code_simp


section \<open>The default assembler: \<^verbatim>\<open>generate_table_csv\<close>\<close>

text \<open>
  \<^verbatim>\<open>generate_table_csv\<close> first dispatches on the lowercased table name to the bespoke
  assemblers; \<open>assembler_for\<close> is that dispatch. The rest of the function is the default
  path, modelled below as \<open>generate_table_csv\<close> for the tables the dispatch sends to
  \<open>Default\<close>.
\<close>

datatype assembler = BookingRoom | RoomNight | Stay | Booking | BookingDiscount | ReviewScore | Default

definition assembler_for :: "string \<Rightarrow> assembler" where
  "assembler_for tbl =
     (let tl = lower tbl in
      if tl = ''booking_room'' then BookingRoom
      else if tl = ''room_night'' then RoomNight
      else if tl = ''stay'' then Stay
      else if tl = ''booking'' then Booking
      else if tl = ''booking_discount'' then BookingDiscount
      else if tl = ''review_score'' then ReviewScore
      else Default)"

text \<open>
  \<^verbatim>\<open>pk.columns[0] if (pk and len(pk.columns) == 1) else None\<close>, and the test
  \<^verbatim>\<open>pk_col and c.column == pk_col\<close>.
\<close>

definition pk_col_of :: "PrimaryKey option \<Rightarrow> string option" where
  "pk_col_of pk = (case pk of None \<Rightarrow> None
                   | Some k \<Rightarrow> (case columns k of [p] \<Rightarrow> Some p | _ \<Rightarrow> None))"

definition is_pk_col :: "string option \<Rightarrow> string \<Rightarrow> bool" where
  "is_pk_col pk_col cn = (case pk_col of None \<Rightarrow> False | Some p \<Rightarrow> p \<noteq> [] \<and> cn = p)"

text \<open>
  The pools for foreign keys that are also unique: for each such column the parent's ids,
  shuffled and cut to \<open>n_rows\<close>. The source iterates over a set of column names, whose
  order Python does not fix; the model takes them in column order.
\<close>

fun unique_fk_pools_of :: "string \<Rightarrow> fk_map \<Rightarrow> ref_pool \<Rightarrow> nat \<Rightarrow> string list \<Rightarrow> gstate
    \<Rightarrow> (string \<rightharpoonup> pyval list) \<times> gstate" where
  "unique_fk_pools_of table_lc fkm ref_ids n_rows [] st = (Map.empty, st)"
| "unique_fk_pools_of table_lc fkm ref_ids n_rows (fk_col # more_cols) st =
     (case fkm (table_lc, fk_col) of
        None \<Rightarrow> unique_fk_pools_of table_lc fkm ref_ids n_rows more_cols st
      | Some (parent_table, rc) \<Rightarrow>
          (case shuffle (pool_get ref_ids parent_table) st of
             (parent_ids, st1) \<Rightarrow>
               (case unique_fk_pools_of table_lc fkm ref_ids n_rows more_cols st1 of
                  (pools, st2) \<Rightarrow> (pools(fk_col \<mapsto> take n_rows parent_ids), st2))))"

text \<open>
  The body of \<^verbatim>\<open>for c in cols\<close> on the default path. The uniqueness block that follows
  the primary-key test is not nested in it: it runs for every column under a uniqueness
  constraint with whatever \<^verbatim>\<open>v\<close> holds at that point, stores that value and continues.
\<close>

definition table_column :: "env \<Rightarrow> string \<Rightarrow> fk_map \<Rightarrow> ref_pool \<Rightarrow> enum_catalog \<Rightarrow> string option
    \<Rightarrow> (string \<rightharpoonup> pyval list) \<Rightarrow> int \<Rightarrow> ColumnInfo \<Rightarrow> assembly \<Rightarrow> py_error + assembly" where
  "table_column e table_lc fkm ref_ids enums pk_col unique_fk_pools i c a =
     (let cn = ColumnInfo.column c in
      if cn \<in> dom (a_row a) then Inr a
      else
        bind_err
          (if is_pk_col pk_col cn
           then bind_err (generate_value e c i enums (a_st a))
                  (\<lambda>(v, st1). Inr (a\<lparr>a_v := Some v, a_st := st1\<rparr>))
           else Inr a)
          (\<lambda>a1.
             (let after_unique =
                (case fkm (table_lc, cn) of
                   Some (parent_table, rc) \<Rightarrow>
                     (case unique_fk_pools cn of
                        Some (p # ps) \<Rightarrow>
                          Inr (a1\<lparr>a_row := (a_row a1)(cn \<mapsto>
                                 (if nat (i - 1) < length (p # ps) then (p # ps) ! nat (i - 1)
                                  else if is_nullable c then PNone else last (p # ps)))\<rparr>)
                      | _ \<Rightarrow>
                          (let candidates = pool_get ref_ids parent_table in
                           if candidates \<noteq> []
                           then bind_err (choice candidates (a_st a1))
                                  (\<lambda>(x, st1). Inr (a1\<lparr>a_row := (a_row a1)(cn \<mapsto> x),
                                                       a_st := st1\<rparr>))
                           else Inr (a1\<lparr>a_row := (a_row a1)(cn \<mapsto>
                                       (if is_nullable c then PNone else PInt 1))\<rparr>)))
                 | None \<Rightarrow>
                     bind_err (generate_value e c i enums (a_st a1)) (\<lambda>(v, st1).
                       bind_err (enforce_unique e c i enums v (a1\<lparr>a_v := Some v, a_st := st1\<rparr>))
                         (\<lambda>(v1, a2).
                            (case sentinel e c v1 (a_st a2) of
                               (v2, st3) \<Rightarrow>
                                 Inr (a2\<lparr>a_row := (a_row a2)(cn \<mapsto> v2), a_v := Some v2,
                                          a_st := st3\<rparr>)))))
              in
              if cn \<in> dom (a_seen a1)
              then (case a_v a1 of
                      None \<Rightarrow> Inl UnboundLocalError
                    | Some v \<Rightarrow>
                        (if v = PNone then after_unique
                         else bind_err (enforce_unique e c i enums v a1) (\<lambda>(v1, a2).
                                Inr (a2\<lparr>a_row := (a_row a2)(cn \<mapsto> v1), a_v := Some v1,
                                         a_pk_vals := a_pk_vals a2 @ [v1]\<rparr>))))
              else after_unique)))"

fun table_columns :: "env \<Rightarrow> string \<Rightarrow> fk_map \<Rightarrow> ref_pool \<Rightarrow> enum_catalog \<Rightarrow> string option
    \<Rightarrow> (string \<rightharpoonup> pyval list) \<Rightarrow> int \<Rightarrow> ColumnInfo list \<Rightarrow> assembly
    \<Rightarrow> py_error + assembly" where
  "table_columns e table_lc fkm ref_ids enums pk_col unique_fk_pools i [] a = Inr a"
| "table_columns e table_lc fkm ref_ids enums pk_col unique_fk_pools i (c # cs) a =
     (case table_column e table_lc fkm ref_ids enums pk_col unique_fk_pools i c a of
        Inl err \<Rightarrow> Inl err
      | Inr a1 \<Rightarrow> table_columns e table_lc fkm ref_ids enums pk_col unique_fk_pools i cs a1)"

text \<open>
  The start/end pair: \<^verbatim>\<open>next((col_lc[k] for k in start_keys if k in col_lc), None)\<close>.
  The keys are a set literal in the source; the model tries them in the written order.
\<close>

definition start_keys :: "string list" where
  "start_keys = [''start_date'', ''from_date'', ''valid_from'', ''effective_start_date'',
                 ''block_start_date'']"

definition end_keys :: "string list" where
  "end_keys = [''end_date'', ''to_date'', ''valid_to'', ''effective_end_date'',
               ''block_end_date'', ''expires_on'']"

definition first_key_col :: "ColumnInfo list \<Rightarrow> string list \<Rightarrow> string option" where
  "first_key_col cols ks =
     (case filter (\<lambda>k. col_lc_get cols k \<noteq> None) ks of
        [] \<Rightarrow> None
      | k # others \<Rightarrow> col_lc_get cols k)"

definition table_row :: "env \<Rightarrow> string \<Rightarrow> ColumnInfo list \<Rightarrow> fk_map \<Rightarrow> ref_pool \<Rightarrow> enum_catalog
    \<Rightarrow> string option \<Rightarrow> (string \<rightharpoonup> pyval list) \<Rightarrow> string option \<Rightarrow> string option \<Rightarrow> int
    \<Rightarrow> assembly \<Rightarrow> py_error + assembly" where
  "table_row e table_lc cols fkm ref_ids enums pk_col unique_fk_pools start_col end_col i a =
     (case (if named start_col \<and> named end_col
            then (case date_between e (-365) 365 (a_st a) of
                    (d_from, st1) \<Rightarrow>
                      (case randint 1 60 st1 of
                         (days, st2) \<Rightarrow>
                           (set_if_named end_col (PDate (d_from + days))
                              (set_if_named start_col (PDate d_from) Map.empty), st2)))
            else (Map.empty, a_st a)) of
        (r0, st0) \<Rightarrow>
          table_columns e table_lc fkm ref_ids enums pk_col unique_fk_pools i cols
            (a\<lparr>a_row := r0, a_st := st0\<rparr>))"

fun table_rows :: "env \<Rightarrow> string \<Rightarrow> ColumnInfo list \<Rightarrow> fk_map \<Rightarrow> ref_pool \<Rightarrow> enum_catalog
    \<Rightarrow> string option \<Rightarrow> (string \<rightharpoonup> pyval list) \<Rightarrow> string option \<Rightarrow> string option \<Rightarrow> int list
    \<Rightarrow> assembly \<Rightarrow> py_error + row list \<times> assembly" where
  "table_rows e table_lc cols fkm ref_ids enums pk_col unique_fk_pools start_col end_col [] a
     = Inr ([], a)"
| "table_rows e table_lc cols fkm ref_ids enums pk_col unique_fk_pools start_col end_col
      (i # rest) a =
     (case table_row e table_lc cols fkm ref_ids enums pk_col unique_fk_pools start_col end_col
             i a of
        Inl err \<Rightarrow> Inl err
      | Inr a1 \<Rightarrow>
          (case table_rows e table_lc cols fkm ref_ids enums pk_col unique_fk_pools start_col
                  end_col rest a1 of
             Inl err \<Rightarrow> Inl err
           | Inr (rows, a2) \<Rightarrow> Inr (a_row a1 # rows, a2)))"

text \<open>
  The default path as a whole: the lines written, the pool after
  \<^verbatim>\<open>ref_ids[table_lc] = pk_vals\<close> (done when there is a single-column primary key), and
  the generator state.
\<close>

definition generate_table_csv :: "env \<Rightarrow> string \<Rightarrow> ColumnInfo list \<Rightarrow> PrimaryKey option \<Rightarrow> fk_map
    \<Rightarrow> ref_pool \<Rightarrow> nat \<Rightarrow> enum_catalog \<Rightarrow> unique_columns \<Rightarrow> gstate
    \<Rightarrow> py_error + pyval list list \<times> ref_pool \<times> gstate" where
  "generate_table_csv e tbl cols pk fkm ref_ids n_rows enums unique_cols st =
     (let table_lc = lower tbl;
          pk_col = pk_col_of pk;
          uniq = uniq_cols_of unique_cols table_lc;
          unique_fk_cols = filter (\<lambda>cn. fkm (table_lc, cn) \<noteq> None \<and> cn \<in> uniq)
                             (remdups (map ColumnInfo.column cols))
      in
      (case unique_fk_pools_of table_lc fkm ref_ids n_rows unique_fk_cols st of
         (pools, st1) \<Rightarrow>
           (case table_rows e table_lc cols fkm ref_ids enums pk_col pools
                   (first_key_col cols start_keys) (first_key_col cols end_keys)
                   (map int [1..<Suc n_rows])
                   \<lparr>a_row = Map.empty, a_v = None, a_seen = fresh_seen uniq, a_pk_vals = [],
                    a_st = st1\<rparr> of
              Inl err \<Rightarrow> Inl err
            | Inr (rows, a) \<Rightarrow>
                Inr (map (csv_line cols) rows,
                     (if named pk_col then ref_ids(table_lc \<mapsto> a_pk_vals a) else ref_ids),
                     a_st a))))"

definition unique_int_cols :: "ColumnInfo list" where
  "unique_int_cols = [mk_col ''t'' ''id'' ''integer'' ''int4'' False,
                      mk_col ''t'' ''x'' ''integer'' ''int4'' False]"

definition unique_text_cols :: "ColumnInfo list" where
  "unique_text_cols = [mk_col ''t'' ''currency_code'' ''text'' ''text'' False,
                       mk_col ''t'' ''currency'' ''text'' ''text'' False]"

definition t_pk :: PrimaryKey where
  "t_pk = \<lparr>PrimaryKey.table = ''t'', columns = [''id'']\<rparr>"

definition x_unique :: unique_columns where
  "x_unique = [''t'' \<mapsto> {''x''}]"

definition currency_unique :: unique_columns where
  "currency_unique = [''t'' \<mapsto> {''currency''}]"

subsection \<open>Two runs of the default path, step by step\<close>

lemma lower_plain:
  "lower ''x'' = ''x''" "lower ''id'' = ''id''" "lower ''integer'' = ''integer''"
  "lower ''int4'' = ''int4''" "lower ''t'' = ''t''" "lower ''text'' = ''text''"
  "lower ''currency'' = ''currency''" "lower ''currency_code'' = ''currency_code''"
  by code_simp+

lemma rng_of_step:
  "rng_of (r # rs) 0 = r" "(\<lambda>k. rng_of (r # rs) (Suc k)) = rng_of rs"
  "rng_of [] 0 = 0" "(\<lambda>k. rng_of [] (Suc k)) = rng_of []"
  by (auto simp: rng_of_def)

lemma gen_int_col:
  "cn = ''x'' \<or> cn = ''id'' \<Longrightarrow>
   generate_value demo_env (mk_col ''t'' cn ''integer'' ''int4'' False) i Map.empty st
     = Inr (PInt (1 + int (rand st 0 mod 100000)), st\<lparr>rand := \<lambda>k. rand st (Suc k)\<rparr>)"
  by (auto simp: generate_value_def mk_col_def lower_plain Let_def endswith_def
      randint_def rnd_def draw_def)

lemma gen_int_col_next:
  "cn = ''x'' \<or> cn = ''id'' \<Longrightarrow>
   generate_value demo_env (mk_col ''t'' cn ''integer'' ''int4'' False) i Map.empty
     (init_state (rng_of (r # rs)))
     = Inr (PInt (1 + int (r mod 100000)), init_state (rng_of rs))"
  by (simp add: gen_int_col init_state_def rng_of_step)

lemma gen_int_col_zero:
  "cn = ''x'' \<or> cn = ''id'' \<Longrightarrow>
   generate_value demo_env (mk_col ''t'' cn ''integer'' ''int4'' False) i Map.empty
     (init_state (rng_of []))
     = Inr (PInt 1, init_state (rng_of []))"
  by (simp add: gen_int_col init_state_def rng_of_step)

lemma unique_retry_fresh:
  "v \<notin> seen_c \<Longrightarrow> unique_retry e c i enums seen_c n tries v st = Inr (v, tries, st)"
  by (cases n) simp_all

lemma unique_retry_int_stuck:
  "PInt 1 \<in> seen_c \<Longrightarrow>
   unique_retry demo_env (mk_col ''t'' ''x'' ''integer'' ''int4'' False) i Map.empty seen_c n tries
     (PInt 1) (init_state (rng_of []))
   = Inr (PInt 1, tries + n, init_state (rng_of []))"
  by (induction n arbitrary: tries) (simp_all add: gen_int_col_zero)

lemma mk_col_sel:
  "ColumnInfo.column (mk_col t c dt udt n) = c" "ColumnInfo.table (mk_col t c dt udt n) = t"
  "data_type (mk_col t c dt udt n) = dt" "udt_name (mk_col t c dt udt n) = udt"
  "is_nullable (mk_col t c dt udt n) = n" "char_max_len (mk_col t c dt udt n) = None"
  by (simp_all add: mk_col_def)

lemmas table_column_eval = table_row_def named_def table_column_def mk_col_sel Let_def
  is_pk_col_def bind_err_def enforce_unique_def sentinel_def unique_retry_fresh

lemma int_row1:
  "table_row demo_env ''t'' unique_int_cols Map.empty Map.empty Map.empty (Some ''id'') Map.empty
     None None 1
     \<lparr>a_row = Map.empty, a_v = None, a_seen = [''x'' \<mapsto> {}], a_pk_vals = [],
      a_st = init_state (rng_of [0, 0, 3050, 3050])\<rparr>
   = Inr \<lparr>a_row = [''id'' \<mapsto> PInt 1, ''x'' \<mapsto> PInt 1], a_v = Some (PInt 1),
          a_seen = [''x'' \<mapsto> {PInt 1}], a_pk_vals = [PInt 1],
          a_st = init_state (rng_of [3050, 3050])\<rparr>"
  by (simp add: unique_int_cols_def table_column_eval gen_int_col_next)

lemma int_row2:
  "table_row demo_env ''t'' unique_int_cols Map.empty Map.empty Map.empty (Some ''id'') Map.empty
     None None 2
     \<lparr>a_row = r, a_v = v, a_seen = [''x'' \<mapsto> {PInt 1}], a_pk_vals = [PInt 1],
      a_st = init_state (rng_of [3050, 3050])\<rparr>
   = Inr \<lparr>a_row = [''id'' \<mapsto> PInt 3051, ''x'' \<mapsto> PInt 3051], a_v = Some (PInt 3051),
          a_seen = [''x'' \<mapsto> {PInt 3051, PInt 1}], a_pk_vals = [PInt 1, PInt 3051],
          a_st = init_state (rng_of [])\<rparr>"
  by (simp add: unique_int_cols_def table_column_eval gen_int_col_next)

lemma int_row3:
  "table_row demo_env ''t'' unique_int_cols Map.empty Map.empty Map.empty (Some ''id'') Map.empty
     None None 3
     \<lparr>a_row = r, a_v = v, a_seen = [''x'' \<mapsto> {PInt 3051, PInt 1}],
      a_pk_vals = [PInt 1, PInt 3051], a_st = init_state (rng_of [])\<rparr>
   = Inr \<lparr>a_row = [''id'' \<mapsto> PInt 1, ''x'' \<mapsto> PInt 3051], a_v = Some (PInt 3051),
          a_seen = [''x'' \<mapsto> {PInt 3051, PInt 1}], a_pk_vals = [PInt 1, PInt 3051, PInt 3051],
          a_st = init_state (rng_of [])\<rparr>"
  by (simp add: unique_int_cols_def table_column_eval gen_int_col_zero unique_retry_int_stuck
      force_unique_def insert_absorb)

lemma int_run:
  "map_sum id fst (generate_table_csv demo_env ''t'' unique_int_cols (Some t_pk) Map.empty
      Map.empty 3 Map.empty x_unique (init_state (rng_of [0, 0, 3050, 3050])))
     = Inr [[PInt 1, PInt 1], [PInt 3051, PInt 3051], [PInt 1, PInt 3051]]"
proof -
  have idx: "map int [1..<Suc 3] = [1, 2, 3]" by code_simp
  have k1: "first_key_col unique_int_cols start_keys = None" by code_simp
  have k2: "first_key_col unique_int_cols end_keys = None" by code_simp
  have u: "fresh_seen (uniq_cols_of x_unique ''t'') = [''x'' \<mapsto> {}]"
    by (auto simp: uniq_cols_of_def x_unique_def fresh_seen_def)
  have l: "csv_line unique_int_cols [''id'' \<mapsto> a, ''x'' \<mapsto> b] = [a, b]" for a b
    by (simp add: csv_line_def unique_int_cols_def mk_col_sel row_get_def)
  show ?thesis
    unfolding generate_table_csv_def Let_def idx
    by (simp add: lower_plain k1 k2 u pk_col_of_def t_pk_def
        int_row1 int_row2 int_row3 l)
qed


lemma gen_currency_col:
  "cn = ''currency'' \<or> cn = ''currency_code'' \<Longrightarrow>
   generate_value demo_env (mk_col ''t'' cn ''text'' ''text'' False) i Map.empty
     (init_state (rng_of []))
     = Inr (PStr ''USD'', init_state (rng_of []))"
  by (auto simp: generate_value_def mk_col_def lower_plain Let_def endswith_def
      choice_def bind_err_def rnd_def draw_def init_state_def rng_of_step)

lemma unique_retry_text_stuck:
  "PStr ''USD'' \<in> seen_c \<Longrightarrow>
   unique_retry demo_env (mk_col ''t'' ''currency'' ''text'' ''text'' False) i Map.empty seen_c n
     tries (PStr ''USD'') (init_state (rng_of []))
   = Inr (PStr ''USD'', tries + n, init_state (rng_of []))"
  by (induction n arbitrary: tries) (simp_all add: gen_currency_col)

lemma text_row1:
  "table_row demo_env ''t'' unique_text_cols Map.empty Map.empty Map.empty None Map.empty
     None None 1
     \<lparr>a_row = Map.empty, a_v = None, a_seen = [''currency'' \<mapsto> {}], a_pk_vals = [],
      a_st = init_state (rng_of [])\<rparr>
   = Inr \<lparr>a_row = [''currency_code'' \<mapsto> PStr ''USD'', ''currency'' \<mapsto> PStr ''USD''],
          a_v = Some (PStr ''USD''), a_seen = [''currency'' \<mapsto> {PStr ''USD''}],
          a_pk_vals = [PStr ''USD''], a_st = init_state (rng_of [])\<rparr>"
  by (simp add: unique_text_cols_def table_column_eval gen_currency_col)

lemma text_row2:
  "table_row demo_env ''t'' unique_text_cols Map.empty Map.empty Map.empty None Map.empty
     None None 2
     \<lparr>a_row = r, a_v = v, a_seen = [''currency'' \<mapsto> {PStr ''USD''}],
      a_pk_vals = [PStr ''USD''], a_st = init_state (rng_of [])\<rparr>
   = Inl AttributeError"
  by (simp add: unique_text_cols_def table_column_eval gen_currency_col unique_retry_text_stuck
      force_unique_def)

lemma text_run:
  "map_sum id fst (generate_table_csv demo_env ''t'' unique_text_cols None Map.empty
      Map.empty 2 Map.empty currency_unique (init_state (rng_of [])))
     = Inl AttributeError"
proof -
  have idx: "map int [1..<Suc 2] = [1, 2]" by code_simp
  have k1: "first_key_col unique_text_cols start_keys = None" by code_simp
  have k2: "first_key_col unique_text_cols end_keys = None" by code_simp
  have u: "fresh_seen (uniq_cols_of currency_unique ''t'') = [''currency'' \<mapsto> {}]"
    by (auto simp: uniq_cols_of_def currency_unique_def fresh_seen_def)
  show ?thesis
    unfolding generate_table_csv_def Let_def idx
    by (simp add: lower_plain k1 k2 u pk_col_of_def text_row1 text_row2)
qed

text \<open>
  Claim C3 on the default path. With an integer column \<open>x\<close> under a uniqueness constraint
  and a random stream on which the retries of row 3 keep returning 1, the last resort turns
  1 into \<open>1 + 3 * 1000 + 50 = 3051\<close>, a value row 2 already holds: the column is written
  as 1, 3051, 3051. With a text column under a uniqueness constraint, the last resort raises
  \<^verbatim>\<open>AttributeError\<close> (here on the stream of zeros, in row 2).
\<close>

theorem unique_fallback_repeats_value:
  "map_sum id fst (generate_table_csv demo_env ''t'' unique_int_cols (Some t_pk) Map.empty
      Map.empty 3 Map.empty x_unique (init_state (rng_of [0, 0, 3050, 3050])))
     = Inr [[PInt 1, PInt 1], [PInt 3051, PInt 3051], [PInt 1, PInt 3051]] \<and>
   map_sum id fst (generate_table_csv demo_env ''t'' unique_text_cols None Map.empty
      Map.empty 2 Map.empty currency_unique (init_state (rng_of [])))
     = Inl AttributeError \<and>
   assembler_for ''t'' = Default"
  using int_run text_run by (simp add: assembler_for_def lower_plain)

end
